theory Spec2Isabelle
  imports Main "HOL-Library.AList" "HOL-Library.Sublist"
begin

section \<open>JavaScript values and library functions used by the task generators\<close>

text \<open>
  Strings are lists of characters. The sources only build and compare ASCII
  strings (task names, path segments, resolutions), so a character is a byte and
  \<^verbatim>\<open>toLowerCase\<close> acts on the letters A to Z only.
\<close>

type_synonym 'v obj = "(string \<times> 'v) list"

text \<open>
  A JavaScript object is its list of own properties in insertion order; a
  well-formed object holds each key once.
\<close>

definition wf_obj :: "'v obj \<Rightarrow> bool" where
  "wf_obj ob = distinct (map fst ob)"

datatype js_value =
    Undefined
  | Null
  | Bool bool
  | Num int
  | Str string
  | Obj "(string \<times> js_value) list"

datatype js_exception = TypeError | Cannot_find_module

fun truthy :: "js_value \<Rightarrow> bool" where
  "truthy Undefined = False"
| "truthy Null = False"
| "truthy (Bool b) = b"
| "truthy (Num n) = (n \<noteq> 0)"
| "truthy (Str s) = (s \<noteq> [])"
| "truthy (Obj ps) = True"

definition get_prop :: "js_value obj \<Rightarrow> string \<Rightarrow> js_value" where
  "get_prop ob k = (case map_of ob k of None \<Rightarrow> Undefined | Some v \<Rightarrow> v)"

definition set_prop :: "'v obj \<Rightarrow> string \<Rightarrow> 'v \<Rightarrow> 'v obj" where
  "set_prop ob k v = AList.update k v ob"

text \<open>
  \<^verbatim>\<open>Object.assign\<close> with one source. The properties are copied in the order
  of the list; the order decides only where a new key is appended.
\<close>

definition object_assign :: "'v obj \<Rightarrow> 'v obj \<Rightarrow> 'v obj" where
  "object_assign tgt src = fold (\<lambda>(k, v) ob. set_prop ob k v) src tgt"

subsection \<open>Object.keys\<close>

definition is_digit :: "char \<Rightarrow> bool" where
  "is_digit c = (c \<in> set ''0123456789'')"

definition digits_value :: "string \<Rightarrow> nat" where
  "digits_value s = foldl (\<lambda>n c. 10 * n + (of_char c - 48)) 0 s"

text \<open>
  An array index is the canonical decimal form of an integer below \<^verbatim>\<open>2^32 - 1\<close>.
  \<^verbatim>\<open>Object.keys\<close> lists such keys first, in ascending numeric order, and
  then every other key in insertion order.
\<close>

definition is_array_index :: "string \<Rightarrow> bool" where
  "is_array_index s =
     (s \<noteq> [] \<and> list_all is_digit s \<and> (s = ''0'' \<or> hd s \<noteq> CHR ''0'')
      \<and> digits_value s < 4294967295)"

definition object_keys :: "'v obj \<Rightarrow> string list" where
  "object_keys ob =
     (let ks = map fst ob
      in sort_key digits_value (filter is_array_index ks)
         @ filter (\<lambda>k. \<not> is_array_index k) ks)"

subsection \<open>String functions\<close>

fun indexOf_from :: "nat \<Rightarrow> string \<Rightarrow> string \<Rightarrow> int" where
  "indexOf_from i [] sub = (if sub = [] then int i else - 1)"
| "indexOf_from i (c # cs) sub =
     (if prefix sub (c # cs) then int i else indexOf_from (Suc i) cs sub)"

definition indexOf :: "string \<Rightarrow> string \<Rightarrow> int" where
  "indexOf s sub = indexOf_from 0 s sub"

fun join :: "string \<Rightarrow> string list \<Rightarrow> string" where
  "join sep [] = []"
| "join sep [x] = x"
| "join sep (x # y # ys) = x @ sep @ join sep (y # ys)"

definition lower_char :: "char \<Rightarrow> char" where
  "lower_char c =
     (case map_of (zip ''ABCDEFGHIJKLMNOPQRSTUVWXYZ'' ''abcdefghijklmnopqrstuvwxyz'') c of
        None \<Rightarrow> c
      | Some d \<Rightarrow> d)"

definition toLowerCase :: "string \<Rightarrow> string" where
  "toLowerCase s = map lower_char s"

subsection \<open>path.join (POSIX)\<close>

fun split_on :: "char \<Rightarrow> string \<Rightarrow> string list" where
  "split_on sep [] = [[]]"
| "split_on sep (c # cs) =
     (if c = sep then [] # split_on sep cs
      else (case split_on sep cs of
              [] \<Rightarrow> [[c]]
            | w # ws \<Rightarrow> (c # w) # ws))"

text \<open>
  \<^verbatim>\<open>normalizeString\<close> of Node's path module, on segments: the accumulator
  holds the kept segments, last one first.
\<close>

fun normalize_segments :: "bool \<Rightarrow> string list \<Rightarrow> string list \<Rightarrow> string list" where
  "normalize_segments allowAboveRoot acc [] = rev acc"
| "normalize_segments allowAboveRoot acc (s # ss) =
     (if s = [] \<or> s = ''.'' then normalize_segments allowAboveRoot acc ss
      else if s = ''..'' then
        (case acc of
           [] \<Rightarrow> normalize_segments allowAboveRoot (if allowAboveRoot then [''..''] else []) ss
         | a # as \<Rightarrow>
             if a = ''..'' then normalize_segments allowAboveRoot (if allowAboveRoot then ''..'' # acc else acc) ss
             else normalize_segments allowAboveRoot as ss)
      else normalize_segments allowAboveRoot (s # acc) ss)"

definition normalize :: "string \<Rightarrow> string" where
  "normalize p =
     (if p = [] then ''.''
      else
        let isAbsolute = (hd p = CHR ''/'');
            trailingSeparator = (last p = CHR ''/'');
            q = join ''/'' (normalize_segments (\<not> isAbsolute) [] (split_on CHR ''/'' p))
        in if q = [] then (if isAbsolute then ''/'' else if trailingSeparator then ''./'' else ''.'')
           else (if isAbsolute then ''/'' else []) @ q @ (if trailingSeparator then ''/'' else []))"

definition path_join :: "string list \<Rightarrow> string" where
  "path_join args =
     (let parts = filter (\<lambda>a. a \<noteq> []) args
      in if parts = [] then ''.'' else normalize (join ''/'' parts))"

text \<open>A path segment that \<^verbatim>\<open>path.join\<close> keeps as it is.\<close>

definition plain_segment :: "string \<Rightarrow> bool" where
  "plain_segment s = (s \<noteq> [] \<and> CHR ''/'' \<notin> set s \<and> s \<noteq> ''.'' \<and> s \<noteq> ''..'')"

section \<open>css.js: the CSS tasks generator\<close>

record css_config =
  resolution :: string
  outFile :: string
  mode :: string

record package_data =
  dependencies :: "string obj option"
  devDependencies :: "string obj option"

text \<open>
  The world \<^verbatim>\<open>build\<close> runs in: what \<^verbatim>\<open>require(packageFile)\<close> loads
  (\<^verbatim>\<open>None\<close> when it throws), what \<^verbatim>\<open>fs.readFile\<close> reports for a path and
  what writing a file reports.
\<close>

record 'e world =
  package_json :: "package_data option"
  readFile :: "string \<Rightarrow> 'e + string"
  writeFile :: "string \<Rightarrow> string \<Rightarrow> 'e option"

datatype 'e event =
    Read_file string
  | Write_file string string
  | Done "'e option"

fun first_error :: "'e option list \<Rightarrow> 'e option" where
  "first_error [] = None"
| "first_error (None # rs) = first_error rs"
| "first_error (Some e # rs) = Some e"

text \<open>
  Modelled from the spec: \<^verbatim>\<open>tools.write\<close> of the external package
  runner-tools. It writes the given files and forwards the outcome to the
  completion callback unchanged.
\<close>

definition tools_write :: "'e world \<Rightarrow> (string \<times> string) list \<Rightarrow> 'e event list" where
  "tools_write w files =
     map (\<lambda>(n, d). Write_file n d) files
     @ [Done (first_error (map (\<lambda>(n, d). writeFile w n d) files))]"

text \<open>
  Modelled from the spec: \<^verbatim>\<open>async.parallel\<close> of the external package
  cjs-async. All tasks are started; the callback receives the first error, or
  the results in the order of the tasks. The argument is the list of what each
  task reports. Which of several errors comes first depends on timing; the
  model takes the first in the order of the tasks, and the callback of build
  does not look at the value of the error.
\<close>

fun async_parallel :: "('e + 'a) list \<Rightarrow> 'e + 'a list" where
  "async_parallel [] = Inr []"
| "async_parallel (r # rs) =
     (case r of
        Inl e \<Rightarrow> Inl e
      | Inr x \<Rightarrow> (case async_parallel rs of Inl e \<Rightarrow> Inl e | Inr xs \<Rightarrow> Inr (x # xs)))"

definition or_empty :: "'v obj option \<Rightarrow> 'v obj" where
  "or_empty ob = (case ob of None \<Rightarrow> [] | Some ps \<Rightarrow> ps)"

text \<open>Lines 18 and 26 to 30 of css.js: the modules whose CSS is read.\<close>

definition modules_of :: "package_data \<Rightarrow> string list" where
  "modules_of pd =
     fold (\<lambda>moduleName modules.
             if indexOf moduleName ''-component-'' \<noteq> - 1 then modules @ [moduleName]
             else modules)
          (object_keys (or_empty (dependencies pd)) @ object_keys (or_empty (devDependencies pd)))
          [''mag-app'']"

definition css_path :: "css_config \<Rightarrow> string \<Rightarrow> string" where
  "css_path config moduleName =
     path_join [''node_modules'', moduleName, ''css'',
                mode config @ ''.'' @ resolution config @ ''.css'']"

text \<open>The callback given to \<^verbatim>\<open>async.parallel\<close>, lines 36 to 40.\<close>

definition build_callback ::
  "'e world \<Rightarrow> css_config \<Rightarrow> 'e option \<Rightarrow> string list \<Rightarrow> 'e event list" where
  "build_callback w config error results =
     (if error = None then tools_write w [(outFile config, join [CHR 0x0A] results)]
      else [])"

definition build :: "'e world \<Rightarrow> css_config \<Rightarrow> js_exception + 'e event list" where
  "build w config =
     (case package_json w of
        None \<Rightarrow> Inl Cannot_find_module
      | Some packageData \<Rightarrow>
          let paths = map (css_path config) (modules_of packageData)
          in Inr (map Read_file paths
                  @ (case async_parallel (map (readFile w) paths) of
                       Inl e \<Rightarrow> build_callback w config (Some e) []
                     | Inr results \<Rightarrow> build_callback w config None results)))"

fun reads_of :: "'e event list \<Rightarrow> string list" where
  "reads_of [] = []"
| "reads_of (Read_file p # evs) = p # reads_of evs"
| "reads_of (ev # evs) = reads_of evs"

subsection \<open>Tasks and the registry\<close>

text \<open>
  A task is a function of the source, kept as data: an action with the values
  its closure captured, or a composite made by \<^verbatim>\<open>runner.parallel\<close> or
  \<^verbatim>\<open>runner.serial\<close>, whose members are task names or tasks.
\<close>

datatype action =
    Css_config css_config
  | Css_build css_config
  | Css_clear css_config
  | Init string
  | Copy string string
  | Gettext_prepare
  | Watch
  | External string

datatype task =
    Run action
  | Named string
  | Parallel "task list"
  | Serial "task list"

text \<open>
  The process-wide state the generators change: the registry
  \<^verbatim>\<open>runner.tasks\<close> and the defaults object \<^verbatim>\<open>generator.options\<close> of css.js.
\<close>

record runner_state =
  tasks :: "task obj"
  generator_options :: "string obj"

text \<open>Lines 68 to 71 of css.js: the defaults when the module is loaded.\<close>

definition initial_options :: "string obj" where
  "initial_options = [(''prefix'', ''css:''), (''suffix'', [])]"

text \<open>
  Modelled from the spec: \<^verbatim>\<open>runner.task\<close> of the external package runner.
  It stores the task in the registry under its name.
\<close>

definition runner_task :: "string \<Rightarrow> task \<Rightarrow> task obj \<Rightarrow> task obj" where
  "runner_task name body registry = set_prop registry name body"

text \<open>Reading a property for string concatenation: a missing one reads as undefined.\<close>

definition prop_string :: "string obj \<Rightarrow> string \<Rightarrow> string" where
  "prop_string ob k = (case map_of ob k of None \<Rightarrow> ''undefined'' | Some s \<Rightarrow> s)"

text \<open>
  Lines 49 to 64 of css.js. \<^verbatim>\<open>Object.assign\<close> writes into the defaults
  object itself, so the merged options are also the new defaults.
\<close>

definition generator :: "css_config \<Rightarrow> string obj option \<Rightarrow> runner_state \<Rightarrow> runner_state" where
  "generator config options st =
     (let options' = object_assign (generator_options st) (or_empty options);
          prefix = prop_string options' ''prefix'';
          suffix = prop_string options' ''suffix'';
          t1 = runner_task (prefix @ ''config'' @ suffix) (Run (Css_config config)) (tasks st);
          t2 = runner_task (prefix @ ''build'' @ suffix) (Run (Css_build config)) t1;
          t3 = runner_task (prefix @ ''clear'' @ suffix) (Run (Css_clear config)) t2
      in \<lparr>tasks = t3, generator_options = options'\<rparr>)"

section \<open>The package generator\<close>

record package_config =
  vars :: "js_value obj"
  config_type :: js_value

definition js_and :: "js_value \<Rightarrow> js_value \<Rightarrow> js_value" where
  "js_and a b = (if truthy a then b else a)"

text \<open>
  Line 23 of the package generator, and the same line 102 of its earlier copy
  kept in css.js. \<^verbatim>\<open>path.join\<close> and \<^verbatim>\<open>toLowerCase\<close> throw a
  TypeError on a value that is not a string.
\<close>

definition target :: "js_value obj \<Rightarrow> js_exception + string" where
  "target vs =
     (if truthy (get_prop vs ''TARGET'') then
        (case get_prop vs ''TARGET'' of
           Str t \<Rightarrow> Inr (path_join [''build'', t])
         | _ \<Rightarrow> Inl TypeError)
      else
        (case (if truthy (get_prop vs ''PLATFORM'') then get_prop vs ''PLATFORM''
               else Str ''TARGET'') of
           Str p \<Rightarrow> Inr (path_join [''build'', toLowerCase p])
         | _ \<Rightarrow> Inl TypeError))"

text \<open>Line 24.\<close>

definition platformName :: "js_value obj \<Rightarrow> js_exception + js_value" where
  "platformName vs =
     (if truthy (get_prop vs ''PLATFORM'') then
        (case get_prop vs ''PLATFORM'' of
           Str p \<Rightarrow> Inr (Str (toLowerCase p))
         | _ \<Rightarrow> Inl TypeError)
      else Inr (get_prop vs ''TARGET''))"

text \<open>
  Lines 70 to 81, and the same lines 127 to 138 of the earlier copy kept in
  css.js: sanitize and prepare, then escape the string values.
\<close>

definition escape_var :: "string \<Rightarrow> js_value obj \<Rightarrow> js_value obj" where
  "escape_var name vs =
     (case get_prop vs name of
        Str s \<Rightarrow> set_prop vs name (Str ([CHR 0x22] @ s @ [CHR 0x22]))
      | _ \<Rightarrow> vs)"

text \<open>What the escaping step makes of a value.\<close>

definition escaped :: "js_value \<Rightarrow> js_value" where
  "escaped v = (case v of Str s \<Rightarrow> Str ([CHR 0x22] @ s @ [CHR 0x22]) | _ \<Rightarrow> v)"

definition prepare_vars :: "js_value obj \<Rightarrow> js_value obj" where
  "prepare_vars vs =
     (let v1 = set_prop vs ''DEVELOP''
                 (Bool (truthy (js_and (get_prop vs ''DEVELOP'')
                                       (Bool (get_prop vs ''DEVELOP'' = Str ''true'')))));
          v2 = set_prop v1 ''LIVERELOAD'' (Obj [(''port'', Num 35729)])
      in fold escape_var (object_keys v2) v2)"

text \<open>
  The generators of the external packages are parameters: each call returns an
  object of tasks, which \<^verbatim>\<open>Object.assign\<close> copies into the registry. The
  package file is read only for the pug variables.
\<close>

datatype ext_generator =
    Notify | Repl | Eslint | Gettext | Static | Livereload | Webpack | Npm | Pug
  | Sass string

record environment =
  externals :: "ext_generator \<Rightarrow> task obj"
  package_present :: bool

definition resolutions :: "string list" where
  "resolutions = [''480'', ''576'', ''720'', ''1080'']"

text \<open>Lines 189 to 210: one round of the loop over the resolutions.\<close>

definition resolution_tasks ::
  "environment \<Rightarrow> string \<Rightarrow> bool \<Rightarrow> string \<Rightarrow> runner_state \<Rightarrow> runner_state" where
  "resolution_tasks env tgt develop res st =
     (let sass = externals env (Sass res);
          st' = generator
                  \<lparr>resolution = res,
                   outFile = path_join [tgt, ''css'', ''sdk.'' @ res @ ''.css''],
                   mode = (if develop then ''develop'' else ''release'')\<rparr>
                  (Some [(''suffix'', '':'' @ res)]) st
      in st'\<lparr>tasks := object_assign (tasks st') sass\<rparr>)"

text \<open>Lines 213 to 295: the main tasks, in the order they are registered.\<close>

definition main_tasks :: "string \<Rightarrow> (string \<times> task) list" where
  "main_tasks tgt =
     [(''init'', Run (Init tgt)),
      (''copy'', Run (Copy (path_join [''src'', ''img'']) (path_join [tgt, ''img'']))),
      (''gettext:prepare'', Run Gettext_prepare),
      (''sass:build'', Parallel [Named ''sass:build:480'', Named ''sass:build:576'',
                                 Named ''sass:build:720'', Named ''sass:build:1080'']),
      (''css:build'', Parallel [Named ''css:build:480'', Named ''css:build:576'',
                                Named ''css:build:720'', Named ''css:build:1080'']),
      (''build'', Parallel [Named ''pug:build'', Named ''sass:build'', Named ''css:build'',
                            Named ''webpack:build'', Named ''copy'',
                            Serial [Named ''gettext:prepare'', Named ''gettext:build'']]),
      (''watch'', Run Watch),
      (''serve'', Parallel [Named ''static:start'', Named ''livereload:start'',
                            Named ''repl:start'', Named ''notify:start'']),
      (''default'', Serial [Named ''build'', Parallel [Named ''watch'', Named ''serve'']])]"

definition register_all :: "(string \<times> task) list \<Rightarrow> task obj \<Rightarrow> task obj" where
  "register_all ts registry = fold (\<lambda>(name, body) r. runner_task name body r) ts registry"

definition package_generator ::
  "environment \<Rightarrow> package_config \<Rightarrow> runner_state
     \<Rightarrow> js_exception + (js_value obj \<times> runner_state)" where
  "package_generator env config st =
     (case target (vars config) of
        Inl ex \<Rightarrow> Inl ex
      | Inr tgt \<Rightarrow>
          (case platformName (vars config) of
             Inl ex \<Rightarrow> Inl ex
           | Inr pn \<Rightarrow>
               let vars' = prepare_vars (vars config);
                   develop = truthy (get_prop vars' ''DEVELOP'');
                   st1 = st\<lparr>tasks :=
                           fold (\<lambda>g r. object_assign r (externals env g))
                             [Notify, Repl, Eslint, Gettext, Static, Livereload, Webpack, Npm]
                             (tasks st)\<rparr>
               in if config_type config = Str ''app'' then
                    (if package_present env then
                       let st2 = st1\<lparr>tasks := object_assign (tasks st1) (externals env Pug)\<rparr>;
                           st3 = fold (resolution_tasks env tgt develop) resolutions st2
                       in Inr (vars', st3\<lparr>tasks := register_all (main_tasks tgt) (tasks st3)\<rparr>)
                     else Inl Cannot_find_module)
                  else Inr (vars', st1\<lparr>tasks := register_all (main_tasks tgt) (tasks st1)\<rparr>)))"

section \<open>Running composite tasks\<close>

datatype 'e outcome = Succeeded | Failed 'e | Unknown_task string | Pending

text \<open>
  Modelled from the spec: \<^verbatim>\<open>runner.serial\<close> of the external package runner.
  It runs the steps one at a time and stops at the first step that does not
  succeed. Each element is what running that step gives: the actions it starts
  and its outcome, or nothing when the fuel is used up.
\<close>

fun serial_results ::
  "(action list \<times> 'e outcome) option list \<Rightarrow> (action list \<times> 'e outcome) option" where
  "serial_results [] = Some ([], Succeeded)"
| "serial_results (None # rs) = None"
| "serial_results (Some (started, Succeeded) # rs) =
     (case serial_results rs of
        None \<Rightarrow> None
      | Some (started', r) \<Rightarrow> Some (started @ started', r))"
| "serial_results (Some (started, r) # rs) = Some (started, r)"

fun first_failure :: "'e outcome list \<Rightarrow> 'e outcome" where
  "first_failure [] = Succeeded"
| "first_failure (Succeeded # rs) = first_failure rs"
| "first_failure (Pending # rs) =
     (case first_failure rs of Succeeded \<Rightarrow> Pending | r \<Rightarrow> r)"
| "first_failure (r # rs) = r"

text \<open>
  Modelled from the spec: \<^verbatim>\<open>runner.parallel\<close> of the external package runner.
  It starts every member and reports a failure when a member fails.
\<close>

fun parallel_results ::
  "(action list \<times> 'e outcome) option list \<Rightarrow> (action list \<times> 'e outcome) option" where
  "parallel_results rs =
     (if None \<in> set rs then None
      else Some (concat (map (\<lambda>r. fst (the r)) rs), first_failure (map (\<lambda>r. snd (the r)) rs)))"

text \<open>
  Modelled from the spec: running a task of the registry. A name is looked up
  when the task runs. The fuel bounds the depth of the lookups, since a registry
  may refer to itself.
\<close>

fun run ::
  "nat \<Rightarrow> task obj \<Rightarrow> (action \<Rightarrow> 'e outcome) \<Rightarrow> task \<Rightarrow> (action list \<times> 'e outcome) option" where
  "run 0 registry perform t = None"
| "run (Suc n) registry perform (Run a) = Some ([a], perform a)"
| "run (Suc n) registry perform (Named name) =
     (case map_of registry name of
        None \<Rightarrow> Some ([], Unknown_task name)
      | Some t \<Rightarrow> run n registry perform t)"
| "run (Suc n) registry perform (Parallel ts) =
     parallel_results (map (run n registry perform) ts)"
| "run (Suc n) registry perform (Serial ts) =
     serial_results (map (run n registry perform) ts)"

section \<open>Example inputs\<close>

definition package_example :: package_data where
  "package_example =
     \<lparr>dependencies = Some [(''lodash'', ''4.17.0''), (''mag-component-page'', ''1.0.0''),
                            (''mag-component-button'', ''1.0.0'')],
      devDependencies = Some [(''stb-component-list'', ''2.0.0''), (''eslint'', ''5.0.0'')]\<rparr>"

definition files_example :: "string \<Rightarrow> string + string" where
  "files_example p =
     (if p = ''node_modules/mag-app/css/release.480.css'' then Inr ''a{}''
      else if p = ''node_modules/mag-component-page/css/release.480.css'' then Inr ''b{}''
      else if p = ''node_modules/mag-component-button/css/release.480.css'' then Inr ''c{}''
      else if p = ''node_modules/stb-component-list/css/release.480.css'' then Inr ''d{}''
      else if p = ''node_modules/lodash/css/release.480.css'' then Inr ''e{}''
      else Inl ''ENOENT'')"

definition world_present :: "string world" where
  "world_present =
     \<lparr>package_json = Some package_example,
      readFile = files_example,
      writeFile = (\<lambda>n d. None)\<rparr>"

text \<open>The same world without the CSS file of mag-component-button.\<close>

definition world_missing :: "string world" where
  "world_missing =
     \<lparr>package_json = Some package_example,
      readFile = (\<lambda>p. if p = ''node_modules/mag-component-button/css/release.480.css''
                       then Inl ''ENOENT'' else files_example p),
      writeFile = (\<lambda>n d. None)\<rparr>"

definition config_release_480 :: css_config where
  "config_release_480 =
     \<lparr>resolution = ''480'', outFile = ''build/target/css/sdk.480.css'', mode = ''release''\<rparr>"

definition config_release_576 :: css_config where
  "config_release_576 =
     \<lparr>resolution = ''576'', outFile = ''build/target/css/sdk.576.css'', mode = ''release''\<rparr>"

definition vars_example :: "js_value obj" where
  "vars_example =
     [(''DEVELOP'', Str ''true''), (''PLATFORM'', Str ''WebOS''), (''PORT'', Num 8080)]"

text \<open>The runner when css.js has been loaded and no task is registered.\<close>

definition state_loaded :: runner_state where
  "state_loaded = \<lparr>tasks = [], generator_options = initial_options\<rparr>"

text \<open>
  External generators that return the tasks the main tasks refer to, each as an
  opaque action.
\<close>

definition externals_example :: "ext_generator \<Rightarrow> task obj" where
  "externals_example g =
     (case g of
        Notify \<Rightarrow> [(''notify:start'', Run (External ''notify:start''))]
      | Repl \<Rightarrow> [(''repl:start'', Run (External ''repl:start''))]
      | Eslint \<Rightarrow> [(''eslint:watch'', Run (External ''eslint:watch''))]
      | Gettext \<Rightarrow> [(''gettext:build'', Run (External ''gettext:build''))]
      | Static \<Rightarrow> [(''static:start'', Run (External ''static:start''))]
      | Livereload \<Rightarrow> [(''livereload:start'', Run (External ''livereload:start''))]
      | Webpack \<Rightarrow> [(''webpack:build'', Run (External ''webpack:build'')),
                     (''webpack:watch'', Run (External ''webpack:watch''))]
      | Npm \<Rightarrow> [(''npm:publish'', Run (External ''npm:publish''))]
      | Pug \<Rightarrow> [(''pug:build'', Run (External ''pug:build''))]
      | Sass r \<Rightarrow> [(''sass:build:'' @ r, Run (External (''sass:build:'' @ r)))])"

definition env_example :: environment where
  "env_example = \<lparr>externals = externals_example, package_present = True\<rparr>"

definition config_app :: package_config where
  "config_app = \<lparr>vars = [(''PLATFORM'', Str ''WebOS'')], config_type = Str ''app''\<rparr>"

definition config_library :: package_config where
  "config_library = \<lparr>vars = [(''PLATFORM'', Str ''WebOS'')], config_type = Str ''library''\<rparr>"

text \<open>The tools succeed, except that copying fails and watching never completes.\<close>

definition perform_copy_fails :: "action \<Rightarrow> string outcome" where
  "perform_copy_fails a =
     (case a of
        Copy src dst \<Rightarrow> Failed ''EACCES''
      | Watch \<Rightarrow> Pending
      | _ \<Rightarrow> Succeeded)"

text \<open>
  The registry the package generator makes of \<^verbatim>\<open>config_app\<close> in this
  environment, written out.
\<close>

definition registry_app :: "task obj" where
  "registry_app =
     [(''notify:start'', Run (External ''notify:start'')),
      (''repl:start'', Run (External ''repl:start'')),
      (''eslint:watch'', Run (External ''eslint:watch'')),
      (''gettext:build'', Run (External ''gettext:build'')),
      (''static:start'', Run (External ''static:start'')),
      (''livereload:start'', Run (External ''livereload:start'')),
      (''webpack:build'', Run (External ''webpack:build'')),
      (''webpack:watch'', Run (External ''webpack:watch'')),
      (''npm:publish'', Run (External ''npm:publish'')),
      (''pug:build'', Run (External ''pug:build'')),
      (''css:config:480'',
       Run (Css_config \<lparr>resolution = ''480'', outFile = ''build/webos/css/sdk.480.css'',
                       mode = ''release''\<rparr>)),
      (''css:build:480'',
       Run (Css_build \<lparr>resolution = ''480'', outFile = ''build/webos/css/sdk.480.css'',
                       mode = ''release''\<rparr>)),
      (''css:clear:480'',
       Run (Css_clear \<lparr>resolution = ''480'', outFile = ''build/webos/css/sdk.480.css'',
                       mode = ''release''\<rparr>)),
      (''sass:build:480'', Run (External ''sass:build:480'')),
      (''css:config:576'',
       Run (Css_config \<lparr>resolution = ''576'', outFile = ''build/webos/css/sdk.576.css'',
                       mode = ''release''\<rparr>)),
      (''css:build:576'',
       Run (Css_build \<lparr>resolution = ''576'', outFile = ''build/webos/css/sdk.576.css'',
                       mode = ''release''\<rparr>)),
      (''css:clear:576'',
       Run (Css_clear \<lparr>resolution = ''576'', outFile = ''build/webos/css/sdk.576.css'',
                       mode = ''release''\<rparr>)),
      (''sass:build:576'', Run (External ''sass:build:576'')),
      (''css:config:720'',
       Run (Css_config \<lparr>resolution = ''720'', outFile = ''build/webos/css/sdk.720.css'',
                       mode = ''release''\<rparr>)),
      (''css:build:720'',
       Run (Css_build \<lparr>resolution = ''720'', outFile = ''build/webos/css/sdk.720.css'',
                       mode = ''release''\<rparr>)),
      (''css:clear:720'',
       Run (Css_clear \<lparr>resolution = ''720'', outFile = ''build/webos/css/sdk.720.css'',
                       mode = ''release''\<rparr>)),
      (''sass:build:720'', Run (External ''sass:build:720'')),
      (''css:config:1080'',
       Run (Css_config \<lparr>resolution = ''1080'', outFile = ''build/webos/css/sdk.1080.css'',
                       mode = ''release''\<rparr>)),
      (''css:build:1080'',
       Run (Css_build \<lparr>resolution = ''1080'', outFile = ''build/webos/css/sdk.1080.css'',
                       mode = ''release''\<rparr>)),
      (''css:clear:1080'',
       Run (Css_clear \<lparr>resolution = ''1080'', outFile = ''build/webos/css/sdk.1080.css'',
                       mode = ''release''\<rparr>)),
      (''sass:build:1080'', Run (External ''sass:build:1080'')),
      (''init'', Run (Init ''build/webos'')),
      (''copy'', Run (Copy ''src/img'' ''build/webos/img'')),
      (''gettext:prepare'', Run Gettext_prepare),
      (''sass:build'', Parallel [Named ''sass:build:480'', Named ''sass:build:576'',
                                 Named ''sass:build:720'', Named ''sass:build:1080'']),
      (''css:build'', Parallel [Named ''css:build:480'', Named ''css:build:576'',
                                Named ''css:build:720'', Named ''css:build:1080'']),
      (''build'', Parallel [Named ''pug:build'', Named ''sass:build'', Named ''css:build'',
                            Named ''webpack:build'', Named ''copy'',
                            Serial [Named ''gettext:prepare'', Named ''gettext:build'']]),
      (''watch'', Run Watch),
      (''serve'', Parallel [Named ''static:start'', Named ''livereload:start'',
                            Named ''repl:start'', Named ''notify:start'']),
      (''default'', Serial [Named ''build'', Parallel [Named ''watch'', Named ''serve'']])]"

text \<open>The tools succeed, except that preparing the gettext file fails.\<close>

definition perform_prepare_fails :: "action \<Rightarrow> string outcome" where
  "perform_prepare_fails a =
     (case a of
        Gettext_prepare \<Rightarrow> Failed ''EROFS''
      | Watch \<Rightarrow> Pending
      | _ \<Rightarrow> Succeeded)"

section \<open>Properties of the library functions\<close>

lemma fold_push: "fold (\<lambda>x acc. if P x then acc @ [x] else acc) ks acc = acc @ filter P ks"
  by (induction ks arbitrary: acc) auto

lemma indexOf_from_set: "indexOf_from i s sub \<noteq> - 1 \<Longrightarrow> set sub \<subseteq> set s"
proof (induction i s sub rule: indexOf_from.induct)
  case (1 i sub)
  then show ?case by (simp split: if_splits)
next
  case (2 i c cs sub)
  show ?case
  proof (cases "prefix sub (c # cs)")
    case True
    then show ?thesis by (rule set_mono_prefix)
  next
    case False
    with 2 have "set sub \<subseteq> set cs" by simp
    then show ?thesis by auto
  qed
qed

lemma async_parallel_map_Inr: "async_parallel (map Inr xs) = Inr xs"
  by (induction xs) simp_all

lemma async_parallel_Inr_D: "async_parallel rs = Inr xs \<Longrightarrow> rs = map Inr xs"
proof (induction rs arbitrary: xs)
  case Nil
  then show ?case by simp
next
  case (Cons r rs)
  then show ?case by (auto split: sum.splits)
qed

lemma async_parallel_Inl_mem: "Inl e \<in> set rs \<Longrightarrow> \<exists>e'. async_parallel rs = Inl e'"
  by (induction rs) (auto split: sum.splits)

lemma array_index_not_component:
  assumes a: "is_array_index k"
  shows "indexOf k ''-component-'' = - 1"
proof (rule ccontr)
  assume b: "indexOf k ''-component-'' \<noteq> - 1"
  have "set ''-component-'' \<subseteq> set k"
    using b indexOf_from_set[of 0 k "''-component-''"] unfolding indexOf_def by blast
  then have "CHR ''-'' \<in> set k" by simp
  moreover from a have "\<forall>c\<in>set k. is_digit c" by (simp add: is_array_index_def list_all_iff)
  ultimately have "is_digit CHR ''-''" by blast
  then show False by (simp add: is_digit_def)
qed

lemma filter_object_keys:
  assumes "\<And>k. P k \<Longrightarrow> \<not> is_array_index k"
  shows "filter P (object_keys ob) = filter P (map fst ob)"
proof -
  have "filter P (sort_key digits_value (filter is_array_index (map fst ob))) = []"
    using assms by (auto simp: filter_empty_conv)
  moreover have "filter P (filter (\<lambda>k. \<not> is_array_index k) (map fst ob)) = filter P (map fst ob)"
    using assms by (auto intro: filter_cong)
  ultimately show ?thesis by (simp add: object_keys_def Let_def)
qed


lemma modules_of_eq:
  "modules_of pd = ''mag-app'' # filter (\<lambda>m. indexOf m ''-component-'' \<noteq> - 1)
      (map fst (or_empty (dependencies pd)) @ map fst (or_empty (devDependencies pd)))"
proof -
  have k: "\<And>ob :: string obj. filter (\<lambda>m. indexOf m ''-component-'' \<noteq> - 1) (object_keys ob)
      = filter (\<lambda>m. indexOf m ''-component-'' \<noteq> - 1) (map fst ob)"
    by (rule filter_object_keys) (use array_index_not_component in blast)
  show ?thesis
    unfolding modules_of_def fold_push by (simp add: k)
qed

lemma split_on_not_Nil: "split_on sep s \<noteq> []"
  by (induction s) (auto split: list.splits)

lemma split_on_no_sep: "sep \<notin> set a \<Longrightarrow> split_on sep a = [a]"
  by (induction a) auto

lemma split_on_append_sep:
  "sep \<notin> set a \<Longrightarrow> split_on sep (a @ sep # r) = a # split_on sep r"
  by (induction a) auto

lemma split_on_join:
  "segs \<noteq> [] \<Longrightarrow> list_all plain_segment segs \<Longrightarrow> split_on CHR ''/'' (join ''/'' segs) = segs"
proof (induction segs)
  case Nil
  then show ?case by simp
next
  case (Cons x xs)
  show ?case
  proof (cases xs)
    case Nil
    with Cons.prems show ?thesis by (simp add: split_on_no_sep plain_segment_def)
  next
    case (Cons y ys)
    with Cons.prems Cons.IH show ?thesis by (simp add: split_on_append_sep plain_segment_def)
  qed
qed

lemma normalize_segments_plain:
  "list_all plain_segment segs \<Longrightarrow> normalize_segments b acc segs = rev acc @ segs"
  by (induction segs arbitrary: acc) (auto simp: plain_segment_def)

lemma plain_hd: "plain_segment x \<Longrightarrow> hd x \<noteq> CHR ''/''"
  by (cases x) (auto simp: plain_segment_def)

lemma plain_last: "plain_segment x \<Longrightarrow> last x \<noteq> CHR ''/''"
  unfolding plain_segment_def by (metis last_in_set)

lemma join_Cons_plain:
  "plain_segment x \<Longrightarrow> join ''/'' (x # xs) \<noteq> [] \<and> hd (join ''/'' (x # xs)) \<noteq> CHR ''/''"
  using plain_hd[of x] by (cases xs) (auto simp: plain_segment_def hd_append)

lemma last_join_plain:
  "segs \<noteq> [] \<Longrightarrow> list_all plain_segment segs \<Longrightarrow> last (join ''/'' segs) \<noteq> CHR ''/''"
proof (induction segs)
  case Nil
  then show ?case by simp
next
  case (Cons x xs)
  show ?case
  proof (cases xs)
    case Nil
    with Cons.prems show ?thesis using plain_last[of x] by simp
  next
    case (Cons y ys)
    have "join ''/'' (y # ys) \<noteq> []"
      using Cons.prems Cons join_Cons_plain[of y ys] by simp
    with Cons Cons.prems Cons.IH show ?thesis by simp
  qed
qed

lemma path_join_plain:
  assumes "segs \<noteq> []" and "list_all plain_segment segs"
  shows "path_join segs = join ''/'' segs"
proof -
  have f: "filter (\<lambda>a. a \<noteq> []) segs = segs"
    using assms(2) by (induction segs) (auto simp: plain_segment_def)
  obtain x xs where segs: "segs = x # xs" using assms(1) by (cases segs) auto
  have px: "plain_segment x" using assms(2) segs by simp
  have ne: "join ''/'' segs \<noteq> []" and h: "hd (join ''/'' segs) \<noteq> CHR ''/''"
    using join_Cons_plain[OF px, of xs] segs by simp_all
  have l: "last (join ''/'' segs) \<noteq> CHR ''/''" using assms by (rule last_join_plain)
  have n: "normalize_segments True [] (split_on CHR ''/'' (join ''/'' segs)) = segs"
    using assms by (simp add: split_on_join normalize_segments_plain)
  show ?thesis
    using assms(1) ne h l by (simp add: path_join_def f normalize_def Let_def n)
qed

section \<open>Properties of build\<close>

lemma first_error_single: "first_error [r] = r"
  by (cases r) simp_all

lemma reads_of_append: "reads_of (map (Read_file \<circ> f) xs @ evs) = map f xs @ reads_of evs"
  by (induction xs) simp_all

lemma reads_of_map: "reads_of (map (Read_file \<circ> f) xs) = map f xs"
  using reads_of_append[of f xs "[]"] by simp

lemma build_reads_ok:
  assumes pkg: "package_json w = Some pd"
    and reads: "map (\<lambda>m. readFile w (css_path config m)) (modules_of pd) = map Inr texts"
  shows "build w config =
     Inr (map (\<lambda>m. Read_file (css_path config m)) (modules_of pd)
          @ [Write_file (outFile config) (join [CHR 0x0A] texts),
             Done (writeFile w (outFile config) (join [CHR 0x0A] texts))])"
proof -
  have "async_parallel (map (readFile w) (map (css_path config) (modules_of pd))) = Inr texts"
    using reads async_parallel_map_Inr[of texts] by (simp add: comp_def)
  then show ?thesis
    by (simp add: build_def pkg Let_def build_callback_def tools_write_def comp_def
        first_error_single)
qed

lemma build_read_fails:
  assumes pkg: "package_json w = Some pd"
    and m: "m \<in> set (modules_of pd)"
    and fail: "readFile w (css_path config m) = Inl e"
  shows "build w config = Inr (map (\<lambda>m. Read_file (css_path config m)) (modules_of pd))"
proof -
  have a: "Inl e \<in> set (map (\<lambda>m. readFile w (css_path config m)) (modules_of pd))"
    unfolding set_map using fail[symmetric] m by (rule image_eqI)
  have "\<exists>e'. async_parallel (map (\<lambda>m. readFile w (css_path config m)) (modules_of pd)) = Inl e'"
    using a by (rule async_parallel_Inl_mem)
  then obtain e' where
    "async_parallel (map (\<lambda>m. readFile w (css_path config m)) (modules_of pd)) = Inl e'" ..
  then show ?thesis
    by (simp add: build_def pkg Let_def build_callback_def comp_def)
qed

lemma build_reads:
  assumes pkg: "package_json w = Some pd"
  shows "\<exists>evs. build w config = Inr evs
           \<and> reads_of evs = map (css_path config) (modules_of pd)"
proof (cases "async_parallel (map (readFile w) (map (css_path config) (modules_of pd)))")
  case (Inl e)
  then show ?thesis
    by (simp add: build_def pkg Let_def build_callback_def reads_of_map)
next
  case (Inr texts)
  then show ?thesis
    by (simp add: build_def pkg Let_def build_callback_def tools_write_def reads_of_append)
qed

lemma plain_css_file:
  assumes "CHR ''/'' \<notin> set md" and "CHR ''/'' \<notin> set res"
  shows "plain_segment (md @ ''.'' @ res @ ''.css'')"
proof -
  have one: "md @ ''.'' @ res @ ''.css'' \<noteq> ''.''"
  proof
    assume "md @ ''.'' @ res @ ''.css'' = ''.''"
    then have "length (md @ ''.'' @ res @ ''.css'') = length ''.''" by (rule arg_cong)
    then show False by simp
  qed
  have two: "md @ ''.'' @ res @ ''.css'' \<noteq> ''..''"
  proof
    assume "md @ ''.'' @ res @ ''.css'' = ''..''"
    then have "length (md @ ''.'' @ res @ ''.css'') = length ''..''" by (rule arg_cong)
    then show False by simp
  qed
  show ?thesis using assms one two by (simp add: plain_segment_def)
qed

lemma css_path_plain:
  assumes "plain_segment moduleName"
    and "CHR ''/'' \<notin> set (mode config)" and "CHR ''/'' \<notin> set (resolution config)"
  shows "css_path config moduleName =
     ''node_modules/'' @ moduleName @ ''/css/'' @ mode config @ ''.'' @ resolution config @ ''.css''"
proof -
  have "list_all plain_segment [''node_modules'', moduleName, ''css'',
          mode config @ ''.'' @ resolution config @ ''.css'']"
    using assms plain_css_file[of "mode config" "resolution config"]
    by (simp add: plain_segment_def)
  then show ?thesis
    unfolding css_path_def by (subst path_join_plain) simp_all
qed

lemma component_names:
  "indexOf ''lodash'' ''-component-'' = - 1"
  "indexOf ''eslint'' ''-component-'' = - 1"
  "indexOf ''mag-component-page'' ''-component-'' = 3"
  "indexOf ''mag-component-button'' ''-component-'' = 3"
  "indexOf ''stb-component-list'' ''-component-'' = 3"
  by (simp_all add: indexOf_def)

lemma modules_example:
  "modules_of package_example =
     [''mag-app'', ''mag-component-page'', ''mag-component-button'', ''stb-component-list'']"
proof -
  have "modules_of package_example =
      ''mag-app'' # filter (\<lambda>m. indexOf m ''-component-'' \<noteq> - 1)
        [''lodash'', ''mag-component-page'', ''mag-component-button'',
         ''stb-component-list'', ''eslint'']"
    unfolding modules_of_eq by (simp add: package_example_def or_empty_def)
  then show ?thesis by (simp add: component_names)
qed

lemma css_paths_example:
  "css_path config_release_480 ''mag-app'' = ''node_modules/mag-app/css/release.480.css''"
  "css_path config_release_480 ''mag-component-page'' =
     ''node_modules/mag-component-page/css/release.480.css''"
  "css_path config_release_480 ''mag-component-button'' =
     ''node_modules/mag-component-button/css/release.480.css''"
  "css_path config_release_480 ''stb-component-list'' =
     ''node_modules/stb-component-list/css/release.480.css''"
  "css_path config_release_480 ''lodash'' = ''node_modules/lodash/css/release.480.css''"
  by (simp_all add: css_path_def config_release_480_def path_join_def normalize_def Let_def)

lemma world_present_reads:
  "map (\<lambda>m. readFile world_present (css_path config_release_480 m)) (modules_of package_example)
     = map Inr [''a{}'', ''b{}'', ''c{}'', ''d{}'']"
  by (simp add: modules_example css_paths_example world_present_def files_example_def)

section \<open>Claims about build\<close>

text \<open>
  C1. When every read succeeds, build writes one file, the output file, and its
  content is the texts of the modules' CSS files joined by a single newline, in
  the order of the modules: mag-app first, then the component modules among the
  dependencies in the order they are declared, then those among the
  devDependencies in the order they are declared.
\<close>

theorem build_concatenates_in_declaration_order:
  assumes "package_json w = Some pd"
    and "ms = ''mag-app'' # filter (\<lambda>m. indexOf m ''-component-'' \<noteq> - 1)
                 (map fst (or_empty (dependencies pd)) @ map fst (or_empty (devDependencies pd)))"
    and "map (\<lambda>m. readFile w (css_path config m)) ms = map Inr texts"
  shows "build w config =
     Inr (map (\<lambda>m. Read_file (css_path config m)) ms
          @ [Write_file (outFile config) (join [CHR 0x0A] texts),
             Done (writeFile w (outFile config) (join [CHR 0x0A] texts))])"
proof -
  have "ms = modules_of pd" using assms(2) by (simp only: modules_of_eq)
  with assms(1,3) show ?thesis using build_reads_ok[of w pd config texts] by simp
qed

theorem build_concatenates_in_declaration_order_witness:
  "build world_present config_release_480 =
     Inr [Read_file ''node_modules/mag-app/css/release.480.css'',
          Read_file ''node_modules/mag-component-page/css/release.480.css'',
          Read_file ''node_modules/mag-component-button/css/release.480.css'',
          Read_file ''node_modules/stb-component-list/css/release.480.css'',
          Write_file ''build/target/css/sdk.480.css''
            (''a{}'' @ [CHR 0x0A] @ ''b{}'' @ [CHR 0x0A] @ ''c{}'' @ [CHR 0x0A] @ ''d{}''),
          Done None]"
proof -
  have p: "package_json world_present = Some package_example"
    by (simp add: world_present_def)
  have m: "modules_of package_example = ''mag-app'' # filter (\<lambda>m. indexOf m ''-component-'' \<noteq> - 1)
      (map fst (or_empty (dependencies package_example))
       @ map fst (or_empty (devDependencies package_example)))"
    by (rule modules_of_eq)
  have r: "map (\<lambda>m. readFile world_present (css_path config_release_480 m))
      (modules_of package_example) = map Inr [''a{}'', ''b{}'', ''c{}'', ''d{}'']"
    by (rule world_present_reads)
  have o: "outFile config_release_480 = ''build/target/css/sdk.480.css''"
    by (simp add: config_release_480_def)
  have w: "writeFile world_present = (\<lambda>n d. None)"
    by (simp add: world_present_def)
  show ?thesis
    using build_concatenates_in_declaration_order[OF p m r]
    by (simp add: modules_example css_paths_example o w)
qed

text \<open>
  C2. When the read of one of the selected CSS files fails, build performs no
  write: its events are the reads alone.
\<close>

theorem build_read_failure_writes_nothing:
  assumes "package_json w = Some pd"
    and "m \<in> set (modules_of pd)"
    and "readFile w (css_path config m) = Inl e"
  shows "\<exists>evs. build w config = Inr evs \<and> (\<forall>n d. Write_file n d \<notin> set evs)"
  using build_read_fails[OF assms] by auto

theorem build_read_failure_writes_nothing_witness:
  "package_json world_missing = Some package_example
   \<and> ''mag-component-button'' \<in> set (modules_of package_example)
   \<and> readFile world_missing (css_path config_release_480 ''mag-component-button'') = Inl ''ENOENT''
   \<and> (\<exists>evs. build world_missing config_release_480 = Inr evs
          \<and> (\<forall>n d. Write_file n d \<notin> set evs))"
proof -
  have p: "package_json world_missing = Some package_example"
    by (simp add: world_missing_def)
  have m: "''mag-component-button'' \<in> set (modules_of package_example)"
    by (simp add: modules_example)
  have r: "readFile world_missing (css_path config_release_480 ''mag-component-button'')
      = Inl ''ENOENT''"
    by (simp add: css_paths_example world_missing_def)
  show ?thesis
    using build_read_failure_writes_nothing[OF p m r] p m r by blast
qed

text \<open>
  C3, as the code has it. build reads one file for each selected module and no
  other file. The selected modules are mag-app, which is always read, and the
  names in dependencies and devDependencies that contain the text -component-.
  For a module name that is a single path segment the file is
  node_modules/<name>/css/<mode>.<resolution>.css.
\<close>

theorem build_reads_selected_modules:
  assumes "package_json w = Some pd"
  shows "(\<exists>evs. build w config = Inr evs
            \<and> reads_of evs = map (css_path config)
                 (''mag-app'' # filter (\<lambda>m. indexOf m ''-component-'' \<noteq> - 1)
                    (map fst (or_empty (dependencies pd))
                     @ map fst (or_empty (devDependencies pd)))))
         \<and> (\<forall>m. plain_segment m \<and> CHR ''/'' \<notin> set (mode config)
                  \<and> CHR ''/'' \<notin> set (resolution config)
               \<longrightarrow> css_path config m =
                     ''node_modules/'' @ m @ ''/css/'' @ mode config @ ''.''
                       @ resolution config @ ''.css'')"
proof -
  have "\<exists>evs. build w config = Inr evs
            \<and> reads_of evs = map (css_path config) (modules_of pd)"
    using assms by (rule build_reads)
  then show ?thesis
    unfolding modules_of_eq using css_path_plain[of _ config] by blast
qed

theorem build_reads_selected_modules_witness:
  "package_json world_present = Some package_example
   \<and> (\<exists>evs. build world_present config_release_480 = Inr evs
          \<and> reads_of evs =
              [''node_modules/mag-app/css/release.480.css'',
               ''node_modules/mag-component-page/css/release.480.css'',
               ''node_modules/mag-component-button/css/release.480.css'',
               ''node_modules/stb-component-list/css/release.480.css''])"
proof -
  have p: "package_json world_present = Some package_example"
    by (simp add: world_present_def)
  have "\<exists>evs. build world_present config_release_480 = Inr evs
            \<and> reads_of evs = map (css_path config_release_480) (modules_of package_example)"
    using build_reads_selected_modules[OF p, of config_release_480]
    unfolding modules_of_eq by blast
  then show ?thesis using p by (simp add: modules_example css_paths_example)
qed

text \<open>
  C3 as stated fails: lodash is a dependency and its CSS file is not read, and
  mag-app is in neither list and its CSS file is read.
\<close>

theorem build_reads_every_dependency_counterexample:
  "build world_present config_release_480 =
     Inr [Read_file ''node_modules/mag-app/css/release.480.css'',
          Read_file ''node_modules/mag-component-page/css/release.480.css'',
          Read_file ''node_modules/mag-component-button/css/release.480.css'',
          Read_file ''node_modules/stb-component-list/css/release.480.css'',
          Write_file ''build/target/css/sdk.480.css''
            (''a{}'' @ [CHR 0x0A] @ ''b{}'' @ [CHR 0x0A] @ ''c{}'' @ [CHR 0x0A] @ ''d{}''),
          Done None]
   \<and> dependencies package_example =
       Some [(''lodash'', ''4.17.0''), (''mag-component-page'', ''1.0.0''),
             (''mag-component-button'', ''1.0.0'')]
   \<and> devDependencies package_example =
       Some [(''stb-component-list'', ''2.0.0''), (''eslint'', ''5.0.0'')]
   \<and> css_path config_release_480 ''lodash'' = ''node_modules/lodash/css/release.480.css''
   \<and> css_path config_release_480 ''eslint'' = ''node_modules/eslint/css/release.480.css''"
proof -
  have p: "package_json world_present = Some package_example"
    by (simp add: world_present_def)
  have b: "build world_present config_release_480 =
     Inr (map (\<lambda>m. Read_file (css_path config_release_480 m)) (modules_of package_example)
          @ [Write_file (outFile config_release_480)
               (join [CHR 0x0A] [''a{}'', ''b{}'', ''c{}'', ''d{}'']),
             Done (writeFile world_present (outFile config_release_480)
               (join [CHR 0x0A] [''a{}'', ''b{}'', ''c{}'', ''d{}'']))])"
    using p world_present_reads by (rule build_reads_ok)
  have e: "css_path config_release_480 ''eslint'' = ''node_modules/eslint/css/release.480.css''"
    by (simp add: css_path_def config_release_480_def path_join_def normalize_def Let_def)
  have o: "outFile config_release_480 = ''build/target/css/sdk.480.css''"
    by (simp add: config_release_480_def)
  have w: "writeFile world_present = (\<lambda>n d. None)"
    by (simp add: world_present_def)
  have d: "dependencies package_example =
       Some [(''lodash'', ''4.17.0''), (''mag-component-page'', ''1.0.0''),
             (''mag-component-button'', ''1.0.0'')]"
    "devDependencies package_example =
       Some [(''stb-component-list'', ''2.0.0''), (''eslint'', ''5.0.0'')]"
    by (simp_all add: package_example_def)
  show ?thesis
    unfolding b by (simp add: modules_example css_paths_example o w e d)
qed

text \<open>
  C4. The code at a failing read: the CSS file of mag-component-button is
  missing. The callback of build has no branch for the error, so the events are
  the four reads and the completion callback is never called.
\<close>

theorem build_read_failure_never_calls_done:
  "build world_missing config_release_480 =
     Inr [Read_file ''node_modules/mag-app/css/release.480.css'',
          Read_file ''node_modules/mag-component-page/css/release.480.css'',
          Read_file ''node_modules/mag-component-button/css/release.480.css'',
          Read_file ''node_modules/stb-component-list/css/release.480.css'']"
proof -
  have p: "package_json world_missing = Some package_example"
    by (simp add: world_missing_def)
  have m: "''mag-component-button'' \<in> set (modules_of package_example)"
    by (simp add: modules_example)
  have r: "readFile world_missing (css_path config_release_480 ''mag-component-button'')
      = Inl ''ENOENT''"
    by (simp add: css_paths_example world_missing_def)
  show ?thesis
    unfolding build_read_fails[OF p m r] by (simp add: modules_example css_paths_example)
qed

section \<open>Properties of the configuration preparation\<close>

lemma set_object_keys: "set (object_keys ob) = fst ` set ob"
  by (auto simp: object_keys_def Let_def)

lemma distinct_object_keys:
  assumes "distinct (map fst ob)"
  shows "distinct (object_keys ob)"
proof -
  have "distinct (filter is_array_index (map fst ob))"
    and "distinct (filter (\<lambda>k. \<not> is_array_index k) (map fst ob))"
    using assms by (rule distinct_filter)+
  then show ?thesis by (auto simp: object_keys_def Let_def)
qed

lemma map_of_escape_var:
  "map_of (escape_var n ob) k = (if k = n then map_option escaped (map_of ob n) else map_of ob k)"
proof (cases "map_of ob n")
  case None
  then show ?thesis by (simp add: escape_var_def get_prop_def)
next
  case (Some v)
  then show ?thesis
    by (cases v) (simp_all add: escape_var_def get_prop_def set_prop_def update_conv' escaped_def)
qed

lemma map_of_fold_escape_var:
  "distinct ks \<Longrightarrow>
   map_of (fold escape_var ks ob) k =
     (if k \<in> set ks then map_option escaped (map_of ob k) else map_of ob k)"
proof (induction ks arbitrary: ob)
  case Nil
  then show ?case by simp
next
  case (Cons n ks)
  then have "map_of (fold escape_var ks (escape_var n ob)) k =
      (if k \<in> set ks then map_option escaped (map_of (escape_var n ob) k)
       else map_of (escape_var n ob) k)"
    by simp
  with Cons.prems show ?case by (auto simp: map_of_escape_var)
qed

lemma develop_flag:
  "truthy (js_and d (Bool (d = Str ''true''))) = (d = Str ''true'')"
  by (cases d) (auto simp: js_and_def)

lemma get_prop_Str: "get_prop ob k = Str s \<longleftrightarrow> map_of ob k = Some (Str s)"
  by (simp add: get_prop_def split: option.splits)

lemma develop_value:
  "truthy (js_and (get_prop ob k) (Bool (get_prop ob k = Str ''true'')))
     = (map_of ob k = Some (Str ''true''))"
  unfolding develop_flag by (rule get_prop_Str)

lemma map_of_prepare_vars:
  assumes "wf_obj vs"
  shows "map_of (prepare_vars vs) k =
     (if k = ''LIVERELOAD'' then Some (Obj [(''port'', Num 35729)])
      else if k = ''DEVELOP'' then Some (Bool (map_of vs ''DEVELOP'' = Some (Str ''true'')))
      else map_option escaped (map_of vs k))"
proof -
  define v2 where "v2 = set_prop (set_prop vs ''DEVELOP''
      (Bool (map_of vs ''DEVELOP'' = Some (Str ''true'')))) ''LIVERELOAD'' (Obj [(''port'', Num 35729)])"
  have p: "prepare_vars vs = fold escape_var (object_keys v2) v2"
    by (simp add: prepare_vars_def Let_def v2_def develop_value)
  have "distinct (map fst v2)"
    using assms by (simp add: v2_def set_prop_def wf_obj_def distinct_update)
  then have d: "distinct (object_keys v2)" by (rule distinct_object_keys)
  have m: "map_of v2 = ((map_of vs)(''DEVELOP'' \<mapsto> Bool (map_of vs ''DEVELOP'' = Some (Str ''true''))))
      (''LIVERELOAD'' \<mapsto> Obj [(''port'', Num 35729)])"
    by (simp add: v2_def set_prop_def update_conv')
  have k: "k \<in> set (object_keys v2) \<longleftrightarrow> map_of v2 k \<noteq> None"
    by (simp add: set_object_keys map_of_eq_None_iff)
  have "map_of (prepare_vars vs) k = map_option escaped (map_of v2 k)"
    unfolding p map_of_fold_escape_var[OF d] k by auto
  then show ?thesis by (simp add: m escaped_def)
qed

lemma lower_char_slash: "lower_char c = CHR ''/'' \<longleftrightarrow> c = CHR ''/''"
  by (simp add: lower_char_def)

lemma lower_char_dot: "lower_char c = CHR ''.'' \<longleftrightarrow> c = CHR ''.''"
  by (simp add: lower_char_def)

lemma plain_toLowerCase:
  assumes "plain_segment p"
  shows "plain_segment (toLowerCase p)"
proof -
  have ne: "p \<noteq> []" and ns: "CHR ''/'' \<notin> set p" and n1: "p \<noteq> ''.''" and n2: "p \<noteq> ''..''"
    using assms by (simp_all add: plain_segment_def)
  have a: "toLowerCase p \<noteq> []" using ne by (simp add: toLowerCase_def)
  have b: "CHR ''/'' \<notin> set (toLowerCase p)"
  proof
    assume "CHR ''/'' \<in> set (toLowerCase p)"
    then have "CHR ''/'' \<in> lower_char ` set p" by (simp only: toLowerCase_def set_map)
    then obtain c where c: "CHR ''/'' = lower_char c" "c \<in> set p" by (rule imageE)
    from c(1) have "lower_char c = CHR ''/''" by (rule sym)
    then have "c = CHR ''/''" by (simp only: lower_char_slash)
    with c(2) ns show False by simp
  qed
  have dots: "map lower_char q = replicate n CHR ''.'' \<Longrightarrow> q = replicate n CHR ''.''" for q n
  proof (induction q arbitrary: n)
    case Nil
    then show ?case by simp
  next
    case (Cons x q)
    then obtain k where n: "n = Suc k" by (cases n) auto
    with Cons.prems have "lower_char x = CHR ''.''" and "map lower_char q = replicate k CHR ''.''"
      by simp_all
    then show ?case using Cons.IH[of k] n by (simp add: lower_char_dot)
  qed
  have c: "toLowerCase p \<noteq> ''.''"
  proof
    assume "toLowerCase p = ''.''"
    then have "map lower_char p = replicate 1 CHR ''.''" by (simp add: toLowerCase_def)
    then have "p = replicate 1 CHR ''.''" by (rule dots)
    with n1 show False by simp
  qed
  have d: "toLowerCase p \<noteq> ''..''"
  proof
    assume "toLowerCase p = ''..''"
    then have "map lower_char p = replicate 2 CHR ''.''"
      by (simp add: toLowerCase_def numeral_2_eq_2)
    then have "p = replicate 2 CHR ''.''" by (rule dots)
    with n2 show False by (simp add: numeral_2_eq_2)
  qed
  show ?thesis using a b c d by (simp add: plain_segment_def)
qed

lemma path_join_build:
  assumes "plain_segment t"
  shows "path_join [''build'', t] = ''build/'' @ t"
proof -
  have "list_all plain_segment [''build'', t]" using assms by (simp add: plain_segment_def)
  then have "path_join [''build'', t] = join ''/'' [''build'', t]"
    by (intro path_join_plain) simp_all
  then show ?thesis by simp
qed

section \<open>Claims about the configuration\<close>

text \<open>
  C5. After the preparation of a variables object, a variable with a string
  value s, other than DEVELOP and LIVERELOAD, holds s between two double
  quotes; DEVELOP holds the boolean that is true exactly when its incoming value
  was the string true; LIVERELOAD holds the injected object; and a variable with
  a value that is not a string, other than these two, holds what it held.
\<close>

theorem prepare_vars_escapes_strings:
  assumes "wf_obj vs"
  shows "(\<forall>name s. map_of vs name = Some (Str s) \<and> name \<noteq> ''DEVELOP'' \<and> name \<noteq> ''LIVERELOAD''
            \<longrightarrow> map_of (prepare_vars vs) name = Some (Str ([CHR 0x22] @ s @ [CHR 0x22])))
       \<and> map_of (prepare_vars vs) ''DEVELOP''
           = Some (Bool (map_of vs ''DEVELOP'' = Some (Str ''true'')))
       \<and> map_of (prepare_vars vs) ''LIVERELOAD'' = Some (Obj [(''port'', Num 35729)])
       \<and> (\<forall>name v. map_of vs name = Some v \<and> (\<forall>s. v \<noteq> Str s)
              \<and> name \<noteq> ''DEVELOP'' \<and> name \<noteq> ''LIVERELOAD''
            \<longrightarrow> map_of (prepare_vars vs) name = Some v)
       \<and> (\<forall>name. map_of vs name = None \<and> name \<noteq> ''DEVELOP'' \<and> name \<noteq> ''LIVERELOAD''
            \<longrightarrow> map_of (prepare_vars vs) name = None)"
proof -
  have a: "map_of (prepare_vars vs) name = Some (Str ([CHR 0x22] @ s @ [CHR 0x22]))"
    if "map_of vs name = Some (Str s)" "name \<noteq> ''DEVELOP''" "name \<noteq> ''LIVERELOAD''"
    for name s
    using that by (simp add: map_of_prepare_vars[OF assms] escaped_def)
  have b: "map_of (prepare_vars vs) ''DEVELOP''
      = Some (Bool (map_of vs ''DEVELOP'' = Some (Str ''true'')))"
    by (simp add: map_of_prepare_vars[OF assms])
  have c: "map_of (prepare_vars vs) ''LIVERELOAD'' = Some (Obj [(''port'', Num 35729)])"
    by (simp add: map_of_prepare_vars[OF assms])
  have d: "map_of (prepare_vars vs) name = Some v"
    if "map_of vs name = Some v" "\<forall>s. v \<noteq> Str s" "name \<noteq> ''DEVELOP''" "name \<noteq> ''LIVERELOAD''"
    for name v
    using that by (cases v) (simp_all add: map_of_prepare_vars[OF assms] escaped_def)
  have e: "map_of (prepare_vars vs) name = None"
    if "map_of vs name = None" "name \<noteq> ''DEVELOP''" "name \<noteq> ''LIVERELOAD''"
    for name
    using that by (simp add: map_of_prepare_vars[OF assms])
  show ?thesis using a b c d e by blast
qed

theorem prepare_vars_escapes_strings_witness:
  "wf_obj vars_example
   \<and> map_of (prepare_vars vars_example) ''PLATFORM'' = Some (Str ([CHR 0x22] @ ''WebOS'' @ [CHR 0x22]))
   \<and> map_of (prepare_vars vars_example) ''DEVELOP'' = Some (Bool True)
   \<and> map_of (prepare_vars vars_example) ''LIVERELOAD'' = Some (Obj [(''port'', Num 35729)])
   \<and> map_of (prepare_vars vars_example) ''PORT'' = Some (Num 8080)
   \<and> map_of (prepare_vars vars_example) ''TARGET'' = None"
proof -
  have w: "wf_obj vars_example" by (simp add: wf_obj_def vars_example_def)
  have l: "map_of vars_example ''PLATFORM'' = Some (Str ''WebOS'')"
    "map_of vars_example ''DEVELOP'' = Some (Str ''true'')"
    "map_of vars_example ''PORT'' = Some (Num 8080)"
    "map_of vars_example ''TARGET'' = None"
    by (simp_all add: vars_example_def)
  note t = prepare_vars_escapes_strings[OF w]
  have a: "map_of (prepare_vars vars_example) ''PLATFORM''
      = Some (Str ([CHR 0x22] @ ''WebOS'' @ [CHR 0x22]))"
    by (rule t[THEN conjunct1, rule_format]) (simp add: l)
  have b: "map_of (prepare_vars vars_example) ''DEVELOP'' = Some (Bool True)"
    using t[THEN conjunct2, THEN conjunct1] by (simp add: l)
  have c: "map_of (prepare_vars vars_example) ''LIVERELOAD'' = Some (Obj [(''port'', Num 35729)])"
    by (rule t[THEN conjunct2, THEN conjunct2, THEN conjunct1])
  have d: "map_of (prepare_vars vars_example) ''PORT'' = Some (Num 8080)"
    by (rule t[THEN conjunct2, THEN conjunct2, THEN conjunct2, THEN conjunct1, rule_format])
      (simp add: l)
  have e: "map_of (prepare_vars vars_example) ''TARGET'' = None"
    by (rule t[THEN conjunct2, THEN conjunct2, THEN conjunct2, THEN conjunct2, rule_format])
      (simp add: l)
  show ?thesis using w a b c d e by (intro conjI)
qed

text \<open>
  C10. The build target directory: the path joined from build and TARGET when
  TARGET is a string that is not empty; otherwise from build and PLATFORM in
  lower case when PLATFORM is a string that is not empty; otherwise build/target.
  For a value that is a single path segment the joined path is build/<value>.
\<close>

theorem target_directory:
  "(\<forall>t. get_prop vs ''TARGET'' = Str t \<and> t \<noteq> []
        \<longrightarrow> target vs = Inr (path_join [''build'', t])
            \<and> (plain_segment t \<longrightarrow> target vs = Inr (''build/'' @ t)))
   \<and> (\<forall>p. \<not> truthy (get_prop vs ''TARGET'') \<and> get_prop vs ''PLATFORM'' = Str p \<and> p \<noteq> []
        \<longrightarrow> target vs = Inr (path_join [''build'', toLowerCase p])
            \<and> (plain_segment p \<longrightarrow> target vs = Inr (''build/'' @ toLowerCase p)))
   \<and> (\<not> truthy (get_prop vs ''TARGET'') \<and> \<not> truthy (get_prop vs ''PLATFORM'')
        \<longrightarrow> target vs = Inr ''build/target'')"
proof -
  have a: "target vs = Inr (path_join [''build'', t])"
    if "get_prop vs ''TARGET'' = Str t" "t \<noteq> []" for t
    using that by (simp add: target_def)
  have b: "target vs = Inr (path_join [''build'', toLowerCase p])"
    if "\<not> truthy (get_prop vs ''TARGET'')" "get_prop vs ''PLATFORM'' = Str p" "p \<noteq> []" for p
    using that by (simp add: target_def)
  have l: "toLowerCase ''TARGET'' = ''target''"
    by (simp add: toLowerCase_def lower_char_def)
  have "path_join [''build'', ''target''] = ''build/'' @ ''target''"
    by (rule path_join_build) (simp add: plain_segment_def)
  then have c: "target vs = Inr ''build/target''"
    if "\<not> truthy (get_prop vs ''TARGET'')" "\<not> truthy (get_prop vs ''PLATFORM'')"
    using that by (simp add: target_def l)
  show ?thesis
  proof (intro conjI allI impI)
    fix t assume h: "get_prop vs ''TARGET'' = Str t \<and> t \<noteq> []"
    then show "target vs = Inr (path_join [''build'', t])" using a[of t] by simp
    assume "plain_segment t"
    then show "target vs = Inr (''build/'' @ t)" using h a[of t] path_join_build[of t] by simp
  next
    fix p assume h: "\<not> truthy (get_prop vs ''TARGET'') \<and> get_prop vs ''PLATFORM'' = Str p \<and> p \<noteq> []"
    then show "target vs = Inr (path_join [''build'', toLowerCase p])" using b[of p] by simp
    assume "plain_segment p"
    then have "plain_segment (toLowerCase p)" by (rule plain_toLowerCase)
    then show "target vs = Inr (''build/'' @ toLowerCase p)"
      using h b[of p] path_join_build[of "toLowerCase p"] by simp
  next
    assume "\<not> truthy (get_prop vs ''TARGET'') \<and> \<not> truthy (get_prop vs ''PLATFORM'')"
    then show "target vs = Inr ''build/target''" using c by simp
  qed
qed

theorem target_directory_witness:
  "target [(''TARGET'', Str ''mag'')] = Inr ''build/mag''
   \<and> target [(''PLATFORM'', Str ''WebOS'')] = Inr ''build/webos''
   \<and> target [] = Inr ''build/target''"
proof -
  have 1: "get_prop [(''TARGET'', Str ''mag'')] ''TARGET'' = Str ''mag''" "''mag'' \<noteq> []"
    "plain_segment ''mag''"
    by (simp_all add: get_prop_def plain_segment_def)
  have 2: "\<not> truthy (get_prop [(''PLATFORM'', Str ''WebOS'')] ''TARGET'')"
    "get_prop [(''PLATFORM'', Str ''WebOS'')] ''PLATFORM'' = Str ''WebOS''" "''WebOS'' \<noteq> []"
    "plain_segment ''WebOS''" "toLowerCase ''WebOS'' = ''webos''"
    by (simp_all add: get_prop_def plain_segment_def toLowerCase_def lower_char_def)
  have 3: "\<not> truthy (get_prop [] ''TARGET'')" "\<not> truthy (get_prop [] ''PLATFORM'')"
    by (simp_all add: get_prop_def)
  have "target [(''TARGET'', Str ''mag'')] = Inr (''build/'' @ ''mag'')"
    by (rule target_directory[of "[(''TARGET'', Str ''mag'')]", THEN conjunct1, rule_format,
          THEN conjunct2, rule_format]) (simp_all add: 1)
  moreover have "target [(''PLATFORM'', Str ''WebOS'')] = Inr (''build/'' @ toLowerCase ''WebOS'')"
    by (rule target_directory[of "[(''PLATFORM'', Str ''WebOS'')]", THEN conjunct2, THEN conjunct1,
          rule_format, THEN conjunct2, rule_format]) (simp_all add: 2(1-4))
  moreover have "target [] = Inr ''build/target''"
    by (rule target_directory[of "[]", THEN conjunct2, THEN conjunct2, rule_format])
      (simp add: 3)
  ultimately show ?thesis by (simp add: 2(5))
qed

section \<open>Properties of the CSS tasks generator\<close>

lemma object_assign_Nil: "object_assign tgt [] = tgt"
  by (simp add: object_assign_def)

lemma object_assign_Cons:
  "object_assign tgt ((k, v) # src) = object_assign (set_prop tgt k v) src"
  by (simp add: object_assign_def)

lemma map_of_set_prop: "map_of (set_prop ob k v) = (map_of ob)(k \<mapsto> v)"
  by (simp add: set_prop_def update_conv')

lemma keys_set_prop: "fst ` set (set_prop ob k v) = insert k (fst ` set ob)"
  by (simp add: set_prop_def dom_update)

lemma object_assign_other:
  "k \<notin> fst ` set src \<Longrightarrow> map_of (object_assign tgt src) k = map_of tgt k"
proof (induction src arbitrary: tgt)
  case Nil
  then show ?case by (simp add: object_assign_Nil)
next
  case (Cons p src)
  obtain a b where p: "p = (a, b)" by (cases p)
  with Cons.prems have "k \<noteq> a" and "k \<notin> fst ` set src" by auto
  then show ?case using Cons.IH[of "set_prop tgt a b"]
    by (simp add: p object_assign_Cons map_of_set_prop)
qed

lemma object_assign_supplied:
  "distinct (map fst src) \<Longrightarrow> map_of src k = Some v \<Longrightarrow>
   map_of (object_assign tgt src) k = Some v"
proof (induction src arbitrary: tgt)
  case Nil
  then show ?case by simp
next
  case (Cons p src)
  obtain a b where p: "p = (a, b)" by (cases p)
  show ?case
  proof (cases "k = a")
    case True
    with Cons.prems p have "v = b" and "k \<notin> fst ` set src" by auto
    then show ?thesis
      using object_assign_other[of k src "set_prop tgt a b"] True
      by (simp add: p object_assign_Cons map_of_set_prop)
  next
    case False
    with Cons.prems p have "distinct (map fst src)" and "map_of src k = Some v" by auto
    then show ?thesis using Cons.IH[of "set_prop tgt a b"]
      by (simp add: p object_assign_Cons)
  qed
qed

lemma keys_object_assign:
  "fst ` set (object_assign tgt src) = fst ` set tgt \<union> fst ` set src"
proof (induction src arbitrary: tgt)
  case Nil
  then show ?case by (simp add: object_assign_Nil)
next
  case (Cons p src)
  obtain a b where p: "p = (a, b)" by (cases p)
  show ?case using Cons.IH[of "set_prop tgt a b"]
    by (simp add: p object_assign_Cons keys_set_prop)
qed

lemma generator_options_generator:
  "generator_options (generator config options st)
     = object_assign (generator_options st) (or_empty options)"
  by (simp add: generator_def Let_def)

lemma task_names_distinct:
  "pre @ ''config'' @ suf \<noteq> pre @ ''build'' @ suf"
  "pre @ ''config'' @ suf \<noteq> pre @ ''clear'' @ suf"
  "pre @ ''build'' @ suf \<noteq> pre @ ''clear'' @ suf"
  by simp_all

lemma map_of_tasks_generator:
  assumes "pre = prop_string (generator_options (generator config options st)) ''prefix''"
    and "suf = prop_string (generator_options (generator config options st)) ''suffix''"
  shows "map_of (tasks (generator config options st)) =
     (map_of (tasks st))
       (pre @ ''config'' @ suf \<mapsto> Run (Css_config config),
        pre @ ''build'' @ suf \<mapsto> Run (Css_build config),
        pre @ ''clear'' @ suf \<mapsto> Run (Css_clear config))"
  unfolding assms generator_options_generator
  by (simp add: generator_def Let_def runner_task_def map_of_set_prop)

lemma keys_tasks_generator:
  assumes "pre = prop_string (generator_options (generator config options st)) ''prefix''"
    and "suf = prop_string (generator_options (generator config options st)) ''suffix''"
  shows "fst ` set (tasks (generator config options st)) =
     fst ` set (tasks st)
       \<union> {pre @ ''config'' @ suf, pre @ ''build'' @ suf, pre @ ''clear'' @ suf}"
  unfolding assms generator_options_generator
  by (simp add: generator_def Let_def runner_task_def keys_set_prop insert_commute)

lemma initial_default:
  "map_of initial_options ''prefix'' = Some ''css:''"
  "map_of initial_options ''suffix'' = Some []"
  by (simp_all add: initial_options_def)

lemma merged_option:
  assumes "wf_obj (or_empty options)"
  shows "prop_string (object_assign defaults (or_empty options)) k =
     (case map_of (or_empty options) k of
        None \<Rightarrow> prop_string defaults k
      | Some v \<Rightarrow> v)"
proof (cases "map_of (or_empty options) k")
  case None
  then have "k \<notin> fst ` set (or_empty options)" by (simp add: map_of_eq_None_iff)
  then show ?thesis using None by (simp add: prop_string_def object_assign_other)
next
  case (Some v)
  then show ?thesis using assms
    by (simp add: prop_string_def object_assign_supplied wf_obj_def)
qed

section \<open>Claims about the CSS tasks generator\<close>

text \<open>
  C6, as the code has it. One call of the generator registers three tasks and
  changes no other entry of the registry. Their names are prefix, then config,
  build or clear, then suffix, where the prefix and the suffix are those
  supplied in the options and otherwise those the defaults object holds at the
  call; these are css: and the empty string as long as the defaults are as
  css.js defines them.
\<close>

theorem generator_registers_three_tasks:
  assumes "wf_obj (or_empty options)"
    and "pre = (case map_of (or_empty options) ''prefix'' of
                  None \<Rightarrow> prop_string (generator_options st) ''prefix'' | Some p \<Rightarrow> p)"
    and "suf = (case map_of (or_empty options) ''suffix'' of
                  None \<Rightarrow> prop_string (generator_options st) ''suffix'' | Some s \<Rightarrow> s)"
  shows "fst ` set (tasks (generator config options st)) =
           fst ` set (tasks st)
             \<union> {pre @ ''config'' @ suf, pre @ ''build'' @ suf, pre @ ''clear'' @ suf}
       \<and> distinct [pre @ ''config'' @ suf, pre @ ''build'' @ suf, pre @ ''clear'' @ suf]
       \<and> map_of (tasks (generator config options st)) (pre @ ''config'' @ suf)
           = Some (Run (Css_config config))
       \<and> map_of (tasks (generator config options st)) (pre @ ''build'' @ suf)
           = Some (Run (Css_build config))
       \<and> map_of (tasks (generator config options st)) (pre @ ''clear'' @ suf)
           = Some (Run (Css_clear config))
       \<and> (\<forall>n. n \<notin> {pre @ ''config'' @ suf, pre @ ''build'' @ suf, pre @ ''clear'' @ suf}
              \<longrightarrow> map_of (tasks (generator config options st)) n = map_of (tasks st) n)
       \<and> (generator_options st = initial_options
            \<longrightarrow> pre = (case map_of (or_empty options) ''prefix'' of
                         None \<Rightarrow> ''css:'' | Some p \<Rightarrow> p)
                \<and> suf = (case map_of (or_empty options) ''suffix'' of
                           None \<Rightarrow> [] | Some s \<Rightarrow> s))"
proof -
  have pre: "pre = prop_string (generator_options (generator config options st)) ''prefix''"
    unfolding generator_options_generator merged_option[OF assms(1)] assms(2) ..
  have suf: "suf = prop_string (generator_options (generator config options st)) ''suffix''"
    unfolding generator_options_generator merged_option[OF assms(1)] assms(3) ..
  note m = map_of_tasks_generator[OF pre suf]
  have k: "fst ` set (tasks (generator config options st)) =
      fst ` set (tasks st)
        \<union> {pre @ ''config'' @ suf, pre @ ''build'' @ suf, pre @ ''clear'' @ suf}"
    using pre suf by (rule keys_tasks_generator)
  have d: "distinct [pre @ ''config'' @ suf, pre @ ''build'' @ suf, pre @ ''clear'' @ suf]"
    by simp
  have c1: "map_of (tasks (generator config options st)) (pre @ ''config'' @ suf)
      = Some (Run (Css_config config))"
    unfolding m by simp
  have c2: "map_of (tasks (generator config options st)) (pre @ ''build'' @ suf)
      = Some (Run (Css_build config))"
    unfolding m by simp
  have c3: "map_of (tasks (generator config options st)) (pre @ ''clear'' @ suf)
      = Some (Run (Css_clear config))"
    unfolding m by simp
  have o: "\<forall>n. n \<notin> {pre @ ''config'' @ suf, pre @ ''build'' @ suf, pre @ ''clear'' @ suf}
      \<longrightarrow> map_of (tasks (generator config options st)) n = map_of (tasks st) n"
    unfolding m by simp
  have i: "generator_options st = initial_options
      \<longrightarrow> pre = (case map_of (or_empty options) ''prefix'' of None \<Rightarrow> ''css:'' | Some p \<Rightarrow> p)
          \<and> suf = (case map_of (or_empty options) ''suffix'' of None \<Rightarrow> [] | Some s \<Rightarrow> s)"
    unfolding assms(2) assms(3)
    by (simp add: prop_string_def initial_default split: option.splits)
  show ?thesis using k d c1 c2 c3 o i by (intro conjI)
qed

theorem generator_registers_three_tasks_witness:
  "fst ` set (tasks (generator config_release_480 (Some [(''suffix'', '':480'')]) state_loaded))
     = {''css:config:480'', ''css:build:480'', ''css:clear:480''}
   \<and> map_of (tasks (generator config_release_480 (Some [(''suffix'', '':480'')]) state_loaded))
        ''css:build:480'' = Some (Run (Css_build config_release_480))
   \<and> fst ` set (tasks (generator config_release_480 None state_loaded))
     = {''css:config'', ''css:build'', ''css:clear''}"
proof -
  have w: "wf_obj (or_empty (Some [(''suffix'', '':480'')]))" "wf_obj (or_empty None)"
    by (simp_all add: wf_obj_def or_empty_def)
  have p1: "''css:'' = (case map_of (or_empty (Some [(''suffix'', '':480'')])) ''prefix'' of
      None \<Rightarrow> prop_string (generator_options state_loaded) ''prefix'' | Some p \<Rightarrow> p)"
    and s1: "'':480'' = (case map_of (or_empty (Some [(''suffix'', '':480'')])) ''suffix'' of
      None \<Rightarrow> prop_string (generator_options state_loaded) ''suffix'' | Some s \<Rightarrow> s)"
    and p2: "''css:'' = (case map_of (or_empty None) ''prefix'' of
      None \<Rightarrow> prop_string (generator_options state_loaded) ''prefix'' | Some p \<Rightarrow> p)"
    and s2: "[] = (case map_of (or_empty None) ''suffix'' of
      None \<Rightarrow> prop_string (generator_options state_loaded) ''suffix'' | Some s \<Rightarrow> s)"
    by (simp_all add: or_empty_def state_loaded_def prop_string_def initial_options_def)
  note a = generator_registers_three_tasks[OF w(1) p1 s1, of config_release_480]
  note b = generator_registers_three_tasks[OF w(2) p2 s2, of config_release_480]
  have t: "tasks state_loaded = []" by (simp add: state_loaded_def)
  have 1: "fst ` set (tasks (generator config_release_480 (Some [(''suffix'', '':480'')])
      state_loaded)) = {''css:config:480'', ''css:build:480'', ''css:clear:480''}"
    using a[THEN conjunct1] by (simp add: t)
  have 2: "map_of (tasks (generator config_release_480 (Some [(''suffix'', '':480'')])
      state_loaded)) ''css:build:480'' = Some (Run (Css_build config_release_480))"
    using a[THEN conjunct2, THEN conjunct2, THEN conjunct2, THEN conjunct1] by simp
  have 3: "fst ` set (tasks (generator config_release_480 None state_loaded))
      = {''css:config'', ''css:build'', ''css:clear''}"
    using b[THEN conjunct1] by (simp add: t)
  show ?thesis using 1 2 3 by (intro conjI)
qed

text \<open>
  C6 as stated fails: after a call that supplied the suffix :480, a call with
  no options registers its three tasks under the suffix :480 and none under the
  empty suffix.
\<close>

theorem generator_default_suffix_counterexample:
  "tasks (generator config_release_576 None
            (generator config_release_480 (Some [(''suffix'', '':480'')]) state_loaded)) =
     [(''css:config:480'', Run (Css_config config_release_576)),
      (''css:build:480'', Run (Css_build config_release_576)),
      (''css:clear:480'', Run (Css_clear config_release_576))]
   \<and> map_of (tasks (generator config_release_576 None
            (generator config_release_480 (Some [(''suffix'', '':480'')]) state_loaded)))
        ''css:build'' = None"
  by (simp add: generator_def Let_def object_assign_def or_empty_def set_prop_def
      runner_task_def prop_string_def state_loaded_def initial_options_def)

text \<open>
  C9. The generator merges the options into the defaults object itself. An
  option supplied in one call and left out in the next is still in the defaults
  after both calls, and the second call names its tasks with it.
\<close>

theorem generator_options_persist:
  assumes "wf_obj (or_empty first_options)"
    and "st_first = generator first_config first_options st"
    and "st_later = generator later_config later_options st_first"
  shows "(\<forall>k v. map_of (or_empty first_options) k = Some v \<and> map_of (or_empty later_options) k = None
            \<longrightarrow> map_of (generator_options st_first) k = Some v
                \<and> map_of (generator_options st_later) k = Some v)
       \<and> (\<forall>p. map_of (or_empty first_options) ''prefix'' = Some p
                \<and> map_of (or_empty later_options) ''prefix'' = None
            \<longrightarrow> map_of (tasks st_later) (p @ ''build'' @ prop_string (generator_options st_later) ''suffix'')
                  = Some (Run (Css_build later_config)))
       \<and> (\<forall>s. map_of (or_empty first_options) ''suffix'' = Some s
                \<and> map_of (or_empty later_options) ''suffix'' = None
            \<longrightarrow> map_of (tasks st_later) (prop_string (generator_options st_later) ''prefix'' @ ''build'' @ s)
                  = Some (Run (Css_build later_config)))"
proof -
  have keep: "map_of (generator_options st_first) k = Some v \<and> map_of (generator_options st_later) k = Some v"
    if h: "map_of (or_empty first_options) k = Some v \<and> map_of (or_empty later_options) k = None" for k v
  proof -
    have 1: "map_of (generator_options st_first) k = Some v"
      unfolding assms(2) generator_options_generator
      using assms(1) h by (simp add: object_assign_supplied wf_obj_def)
    from h have "k \<notin> fst ` set (or_empty later_options)" by (simp add: map_of_eq_None_iff)
    then have "map_of (generator_options st_later) k = map_of (generator_options st_first) k"
      unfolding assms(3) generator_options_generator by (rule object_assign_other)
    with 1 show ?thesis by simp
  qed
  have m: "map_of (tasks st_later) (prop_string (generator_options st_later) ''prefix'' @ ''build''
        @ prop_string (generator_options st_later) ''suffix'') = Some (Run (Css_build later_config))"
    unfolding assms(3) map_of_tasks_generator[OF refl refl] by simp
  have pre: "map_of (tasks st_later) (p @ ''build'' @ prop_string (generator_options st_later) ''suffix'')
      = Some (Run (Css_build later_config))"
    if h: "map_of (or_empty first_options) ''prefix'' = Some p
      \<and> map_of (or_empty later_options) ''prefix'' = None" for p
  proof -
    have "prop_string (generator_options st_later) ''prefix'' = p"
      using keep[OF h] by (simp add: prop_string_def)
    with m show ?thesis by simp
  qed
  have suf: "map_of (tasks st_later) (prop_string (generator_options st_later) ''prefix'' @ ''build'' @ s)
      = Some (Run (Css_build later_config))"
    if h: "map_of (or_empty first_options) ''suffix'' = Some s
      \<and> map_of (or_empty later_options) ''suffix'' = None" for s
  proof -
    have "prop_string (generator_options st_later) ''suffix'' = s"
      using keep[OF h] by (simp add: prop_string_def)
    with m show ?thesis by simp
  qed
  show ?thesis using keep pre suf by (intro conjI allI impI) blast+
qed

theorem generator_options_persist_witness:
  "map_of (generator_options
      (generator config_release_480 (Some [(''suffix'', '':480'')]) state_loaded)) ''suffix''
     = Some '':480''
   \<and> map_of (generator_options
      (generator config_release_480 None
        (generator config_release_480 (Some [(''suffix'', '':480'')]) state_loaded))) ''suffix''
     = Some '':480''
   \<and> map_of (tasks
      (generator config_release_480 None
        (generator config_release_480 (Some [(''suffix'', '':480'')]) state_loaded)))
      ''css:build:480'' = Some (Run (Css_build config_release_480))"
proof -
  have w: "wf_obj (or_empty (Some [(''suffix'', '':480'')]))"
    by (simp add: wf_obj_def or_empty_def)
  note t = generator_options_persist[OF w refl refl,
      where first_config = config_release_480 and later_options = None
        and later_config = config_release_480 and st = state_loaded]
  have h: "map_of (or_empty (Some [(''suffix'', '':480'')])) ''suffix'' = Some '':480''
      \<and> map_of (or_empty None) ''suffix'' = None"
    by (simp add: or_empty_def)
  note a = t[THEN conjunct1, rule_format, OF h]
  note b = t[THEN conjunct2, THEN conjunct2, rule_format, OF h]
  have "map_of (generator_options (generator config_release_480 None
      (generator config_release_480 (Some [(''suffix'', '':480'')]) state_loaded))) ''prefix''
      = Some ''css:''"
    by (simp add: generator_options_generator object_assign_def or_empty_def set_prop_def
        state_loaded_def initial_options_def)
  then have p: "prop_string (generator_options (generator config_release_480 None
      (generator config_release_480 (Some [(''suffix'', '':480'')]) state_loaded))) ''prefix''
      = ''css:''"
    by (simp add: prop_string_def)
  show ?thesis using a b unfolding p by simp
qed

section \<open>Properties of the package generator\<close>

lemma register_all_object_assign: "register_all ts registry = object_assign registry ts"
  by (simp add: register_all_def object_assign_def runner_task_def)

lemma main_task_names:
  "map fst (main_tasks tgt) =
     [''init'', ''copy'', ''gettext:prepare'', ''sass:build'', ''css:build'', ''build'',
      ''watch'', ''serve'', ''default'']"
  by (simp add: main_tasks_def)

lemma distinct_main_task_names: "distinct (map fst (main_tasks tgt))"
  unfolding main_task_names by simp

lemma main_task_registered:
  assumes "map_of (main_tasks tgt) n = Some t"
  shows "map_of (register_all (main_tasks tgt) registry) n = Some t"
  unfolding register_all_object_assign
  using distinct_main_task_names assms by (rule object_assign_supplied)

lemma main_tasks_composites:
  "map_of (main_tasks tgt) ''sass:build'' =
     Some (Parallel [Named ''sass:build:480'', Named ''sass:build:576'',
                     Named ''sass:build:720'', Named ''sass:build:1080''])"
  "map_of (main_tasks tgt) ''css:build'' =
     Some (Parallel [Named ''css:build:480'', Named ''css:build:576'',
                     Named ''css:build:720'', Named ''css:build:1080''])"
  "map_of (main_tasks tgt) ''build'' =
     Some (Parallel [Named ''pug:build'', Named ''sass:build'', Named ''css:build'',
                     Named ''webpack:build'', Named ''copy'',
                     Serial [Named ''gettext:prepare'', Named ''gettext:build'']])"
  "map_of (main_tasks tgt) ''watch'' = Some (Run Watch)"
  "map_of (main_tasks tgt) ''serve'' =
     Some (Parallel [Named ''static:start'', Named ''livereload:start'',
                     Named ''repl:start'', Named ''notify:start''])"
  "map_of (main_tasks tgt) ''default'' =
     Some (Serial [Named ''build'', Parallel [Named ''watch'', Named ''serve'']])"
  by (simp_all add: main_tasks_def)

lemma keys_register_all:
  "fst ` set (register_all ts registry) = fst ` set registry \<union> fst ` set ts"
  unfolding register_all_object_assign by (rule keys_object_assign)

lemma resolution_tasks_options:
  "generator_options (resolution_tasks env tgt develop res st)
     = object_assign (generator_options st) [(''suffix'', '':'' @ res)]"
  by (simp add: resolution_tasks_def Let_def generator_options_generator or_empty_def)

lemma resolution_tasks_prefix:
  "map_of (generator_options (resolution_tasks env tgt develop res st)) ''prefix''
     = map_of (generator_options st) ''prefix''"
  unfolding resolution_tasks_options by (rule object_assign_other) simp

lemma resolution_tasks_suffix:
  "map_of (generator_options (resolution_tasks env tgt develop res st)) ''suffix''
     = Some ('':'' @ res)"
  unfolding resolution_tasks_options by (rule object_assign_supplied) simp_all

lemma keys_resolution_tasks:
  assumes "map_of (generator_options st) ''prefix'' = Some pre"
  shows "fst ` set (tasks (resolution_tasks env tgt develop res st)) =
     fst ` set (tasks st)
       \<union> {pre @ ''config:'' @ res, pre @ ''build:'' @ res, pre @ ''clear:'' @ res}
       \<union> fst ` set (externals env (Sass res))"
proof -
  let ?g = "generator
      \<lparr>resolution = res, outFile = path_join [tgt, ''css'', ''sdk.'' @ res @ ''.css''],
       mode = (if develop then ''develop'' else ''release'')\<rparr>
      (Some [(''suffix'', '':'' @ res)]) st"
  have o: "generator_options ?g = object_assign (generator_options st) [(''suffix'', '':'' @ res)]"
    by (simp add: generator_options_generator or_empty_def)
  have "map_of (generator_options ?g) ''prefix'' = map_of (generator_options st) ''prefix''"
    unfolding o by (rule object_assign_other) simp
  then have p: "pre = prop_string (generator_options ?g) ''prefix''"
    using assms by (simp add: prop_string_def)
  have "map_of (generator_options ?g) ''suffix'' = Some ('':'' @ res)"
    unfolding o by (rule object_assign_supplied) simp_all
  then have s: "'':'' @ res = prop_string (generator_options ?g) ''suffix''"
    by (simp add: prop_string_def)
  have "fst ` set (tasks ?g) =
      fst ` set (tasks st)
        \<union> {pre @ ''config'' @ '':'' @ res, pre @ ''build'' @ '':'' @ res,
            pre @ ''clear'' @ '':'' @ res}"
    using p s by (rule keys_tasks_generator)
  then show ?thesis
    by (simp add: resolution_tasks_def Let_def keys_object_assign)
qed

lemma fold_resolution_tasks_prefix:
  "map_of (generator_options (fold (resolution_tasks env tgt develop) rs st)) ''prefix''
     = map_of (generator_options st) ''prefix''"
  by (induction rs arbitrary: st) (simp_all add: resolution_tasks_prefix)

lemma keys_fold_resolution_tasks:
  assumes "map_of (generator_options st) ''prefix'' = Some pre"
  shows "fst ` set (tasks (fold (resolution_tasks env tgt develop) rs st)) =
     fst ` set (tasks st)
       \<union> (\<Union>res\<in>set rs. {pre @ ''config:'' @ res, pre @ ''build:'' @ res, pre @ ''clear:'' @ res}
                           \<union> fst ` set (externals env (Sass res)))"
  using assms
proof (induction rs arbitrary: st)
  case Nil
  then show ?case by simp
next
  case (Cons r rs)
  have "map_of (generator_options (resolution_tasks env tgt develop r st)) ''prefix'' = Some pre"
    using Cons.prems by (simp add: resolution_tasks_prefix)
  from Cons.IH[OF this] keys_resolution_tasks[OF Cons.prems, of env tgt develop r]
  show ?case by (simp add: Un_assoc)
qed

lemma keys_fold_externals:
  "fst ` set (fold (\<lambda>g r. object_assign r (externals env g)) gs registry) =
     fst ` set registry \<union> (\<Union>g\<in>set gs. fst ` set (externals env g))"
  by (induction gs arbitrary: registry) (simp_all add: keys_object_assign Un_assoc)

text \<open>What the generator returns, by the type of the package.\<close>

lemma package_generator_app:
  assumes "package_generator env config st = Inr (vs', st')"
    and "config_type config = Str ''app''"
  shows "\<exists>tgt develop st2.
     generator_options st2 = generator_options st
     \<and> tasks st' = register_all (main_tasks tgt)
          (tasks (fold (resolution_tasks env tgt develop) resolutions st2))"
proof -
  obtain tgt where t: "target (vars config) = Inr tgt"
    using assms(1) by (cases "target (vars config)") (simp_all add: package_generator_def)
  obtain pn where p: "platformName (vars config) = Inr pn"
    using assms(1) t by (cases "platformName (vars config)") (simp_all add: package_generator_def)
  have pp: "package_present env"
    using assms t p by (cases "package_present env") (simp_all add: package_generator_def Let_def)
  let ?develop = "truthy (get_prop (prepare_vars (vars config)) ''DEVELOP'')"
  let ?st1 = "st\<lparr>tasks := fold (\<lambda>g r. object_assign r (externals env g))
      [Notify, Repl, Eslint, Gettext, Static, Livereload, Webpack, Npm] (tasks st)\<rparr>"
  let ?st2 = "?st1\<lparr>tasks := object_assign (tasks ?st1) (externals env Pug)\<rparr>"
  let ?st3 = "fold (resolution_tasks env tgt ?develop) resolutions ?st2"
  have "package_generator env config st =
      Inr (prepare_vars (vars config),
           ?st3\<lparr>tasks := register_all (main_tasks tgt) (tasks ?st3)\<rparr>)"
    unfolding package_generator_def Let_def t p
    by (simp only: sum.case assms(2) pp if_True simp_thms)
  from trans[OF assms(1)[symmetric] this]
  have "st' = ?st3\<lparr>tasks := register_all (main_tasks tgt) (tasks ?st3)\<rparr>"
    by (simp only: sum.inject prod.inject)
  then have "tasks st' = register_all (main_tasks tgt) (tasks ?st3)" by simp
  moreover have "generator_options ?st2 = generator_options st" by simp
  ultimately show ?thesis by blast
qed

lemma package_generator_other:
  assumes "package_generator env config st = Inr (vs', st')"
    and "config_type config \<noteq> Str ''app''"
  shows "\<exists>tgt.
     tasks st' = register_all (main_tasks tgt)
       (fold (\<lambda>g r. object_assign r (externals env g))
          [Notify, Repl, Eslint, Gettext, Static, Livereload, Webpack, Npm] (tasks st))"
proof -
  obtain tgt where t: "target (vars config) = Inr tgt"
    using assms(1) by (cases "target (vars config)") (simp_all add: package_generator_def)
  obtain pn where p: "platformName (vars config) = Inr pn"
    using assms(1) t by (cases "platformName (vars config)") (simp_all add: package_generator_def)
  let ?st1 = "st\<lparr>tasks := fold (\<lambda>g r. object_assign r (externals env g))
      [Notify, Repl, Eslint, Gettext, Static, Livereload, Webpack, Npm] (tasks st)\<rparr>"
  have "package_generator env config st =
      Inr (prepare_vars (vars config),
           ?st1\<lparr>tasks := register_all (main_tasks tgt) (tasks ?st1)\<rparr>)"
    unfolding package_generator_def Let_def t p
    by (simp only: sum.case assms(2) if_False simp_thms)
  from trans[OF assms(1)[symmetric] this]
  have "st' = ?st1\<lparr>tasks := register_all (main_tasks tgt) (tasks ?st1)\<rparr>"
    by (simp only: sum.inject prod.inject)
  then have "tasks st' = register_all (main_tasks tgt) (tasks ?st1)" by simp
  then show ?thesis by (intro exI[of _ tgt]) simp
qed

lemma package_generator_main:
  assumes "package_generator env config st = Inr (vs', st')"
  shows "\<exists>tgt registry. tasks st' = register_all (main_tasks tgt) registry"
proof (cases "config_type config = Str ''app''")
  case True
  then show ?thesis using package_generator_app[OF assms] by blast
next
  case False
  then show ?thesis using package_generator_other[OF assms] by blast
qed

lemma config_app_generated:
  "package_generator env_example config_app state_loaded =
     Inr ([(''PLATFORM'', Str ([CHR 0x22] @ ''WebOS'' @ [CHR 0x22])),
           (''DEVELOP'', Bool False),
           (''LIVERELOAD'', Obj [(''port'', Num 35729)])],
          \<lparr>tasks = registry_app,
           generator_options = [(''prefix'', ''css:''), (''suffix'', '':1080'')]\<rparr>)"
  by (simp add: config_app_def registry_app_def package_generator_def target_def
      platformName_def prepare_vars_def escape_var_def object_keys_def is_array_index_def
      is_digit_def get_prop_def set_prop_def object_assign_def js_and_def toLowerCase_def
      lower_char_def path_join_def normalize_def main_tasks_def register_all_def
      runner_task_def resolutions_def resolution_tasks_def generator_def prop_string_def
      or_empty_def Let_def env_example_def externals_example_def state_loaded_def
      initial_options_def)

lemma config_library_generated:
  "package_generator env_example config_library state_loaded =
     Inr ([(''PLATFORM'', Str ([CHR 0x22] @ ''WebOS'' @ [CHR 0x22])),
           (''DEVELOP'', Bool False),
           (''LIVERELOAD'', Obj [(''port'', Num 35729)])],
          \<lparr>tasks =
             [(''notify:start'', Run (External ''notify:start'')),
              (''repl:start'', Run (External ''repl:start'')),
              (''eslint:watch'', Run (External ''eslint:watch'')),
              (''gettext:build'', Run (External ''gettext:build'')),
              (''static:start'', Run (External ''static:start'')),
              (''livereload:start'', Run (External ''livereload:start'')),
              (''webpack:build'', Run (External ''webpack:build'')),
              (''webpack:watch'', Run (External ''webpack:watch'')),
              (''npm:publish'', Run (External ''npm:publish''))]
             @ main_tasks ''build/webos'',
           generator_options = initial_options\<rparr>)"
  by (simp add: config_library_def package_generator_def target_def
      platformName_def prepare_vars_def escape_var_def object_keys_def is_array_index_def
      is_digit_def get_prop_def set_prop_def object_assign_def js_and_def toLowerCase_def
      lower_char_def path_join_def normalize_def main_tasks_def register_all_def
      runner_task_def Let_def env_example_def externals_example_def state_loaded_def)

section \<open>Claims about the package generator\<close>

text \<open>
  C7, as the code has it. Whenever the package generator returns, the registry
  holds build, watch, serve and default, and sass:build and css:build are the
  parallel compositions of their four per-resolution names. When the type of the
  package is app (and the prefix of the CSS generator is css:), the registry
  also holds css:build:R for each resolution R, and every task the sass
  generator returned for R.
\<close>

theorem package_generator_registers_tasks:
  assumes "package_generator env config st = Inr (vs', st')"
  shows "{''build'', ''watch'', ''serve'', ''default''} \<subseteq> fst ` set (tasks st')
       \<and> map_of (tasks st') ''sass:build'' =
           Some (Parallel [Named ''sass:build:480'', Named ''sass:build:576'',
                           Named ''sass:build:720'', Named ''sass:build:1080''])
       \<and> map_of (tasks st') ''css:build'' =
           Some (Parallel [Named ''css:build:480'', Named ''css:build:576'',
                           Named ''css:build:720'', Named ''css:build:1080''])
       \<and> (config_type config = Str ''app''
            \<and> map_of (generator_options st) ''prefix'' = Some ''css:''
          \<longrightarrow> (\<forall>r\<in>set [''480'', ''576'', ''720'', ''1080''].
                 ''css:build:'' @ r \<in> fst ` set (tasks st')
                 \<and> fst ` set (externals env (Sass r)) \<subseteq> fst ` set (tasks st')))"
proof -
  obtain tgt registry where m: "tasks st' = register_all (main_tasks tgt) registry"
    using package_generator_main[OF assms] by blast
  have "fst ` set (main_tasks tgt) \<subseteq> fst ` set (tasks st')"
    unfolding m keys_register_all by simp
  moreover have "fst ` set (main_tasks tgt) = set (map fst (main_tasks tgt))" by simp
  ultimately have a: "{''build'', ''watch'', ''serve'', ''default''} \<subseteq> fst ` set (tasks st')"
    unfolding main_task_names by auto
  have b: "map_of (tasks st') ''sass:build'' =
      Some (Parallel [Named ''sass:build:480'', Named ''sass:build:576'',
                      Named ''sass:build:720'', Named ''sass:build:1080''])"
    unfolding m by (rule main_task_registered) (rule main_tasks_composites)
  have c: "map_of (tasks st') ''css:build'' =
      Some (Parallel [Named ''css:build:480'', Named ''css:build:576'',
                      Named ''css:build:720'', Named ''css:build:1080''])"
    unfolding m by (rule main_task_registered) (rule main_tasks_composites)
  have d: "\<forall>r\<in>set [''480'', ''576'', ''720'', ''1080''].
      ''css:build:'' @ r \<in> fst ` set (tasks st')
      \<and> fst ` set (externals env (Sass r)) \<subseteq> fst ` set (tasks st')"
    if app: "config_type config = Str ''app''"
      and pre: "map_of (generator_options st) ''prefix'' = Some ''css:''"
  proof -
    obtain tgt' develop st2 where
      o: "generator_options st2 = generator_options st"
      and t: "tasks st' = register_all (main_tasks tgt')
          (tasks (fold (resolution_tasks env tgt' develop) resolutions st2))"
      using package_generator_app[OF assms app] by blast
    have p2: "map_of (generator_options st2) ''prefix'' = Some ''css:''"
      using pre o by simp
    have k: "fst ` set (tasks (fold (resolution_tasks env tgt' develop) resolutions st2))
        \<subseteq> fst ` set (tasks st')"
      unfolding t keys_register_all by simp
    show ?thesis
    proof
      fix r assume r: "r \<in> set [''480'', ''576'', ''720'', ''1080'']"
      then have r': "r \<in> set resolutions" by (simp add: resolutions_def)
      have "''css:'' @ ''build:'' @ r
          \<in> fst ` set (tasks (fold (resolution_tasks env tgt' develop) resolutions st2))"
        unfolding keys_fold_resolution_tasks[OF p2] using r' by blast
      then have 1: "''css:build:'' @ r \<in> fst ` set (tasks st')" using k by auto
      have "fst ` set (externals env (Sass r))
          \<subseteq> fst ` set (tasks (fold (resolution_tasks env tgt' develop) resolutions st2))"
        unfolding keys_fold_resolution_tasks[OF p2] using r' by blast
      then have 2: "fst ` set (externals env (Sass r)) \<subseteq> fst ` set (tasks st')"
        using k by blast
      from 1 2 show "''css:build:'' @ r \<in> fst ` set (tasks st')
          \<and> fst ` set (externals env (Sass r)) \<subseteq> fst ` set (tasks st')" ..
    qed
  qed
  show ?thesis using a b c d by (intro conjI impI) blast+
qed

theorem package_generator_registers_tasks_witness:
  "config_type config_app = Str ''app''
   \<and> map_of (generator_options state_loaded) ''prefix'' = Some ''css:''
   \<and> {''build'', ''watch'', ''serve'', ''default''} \<subseteq> fst ` set registry_app
   \<and> {''css:build:480'', ''css:build:576'', ''css:build:720'', ''css:build:1080''}
        \<subseteq> fst ` set registry_app
   \<and> {''sass:build:480'', ''sass:build:576'', ''sass:build:720'', ''sass:build:1080''}
        \<subseteq> fst ` set registry_app
   \<and> map_of registry_app ''css:build'' =
       Some (Parallel [Named ''css:build:480'', Named ''css:build:576'',
                       Named ''css:build:720'', Named ''css:build:1080''])"
proof -
  have app: "config_type config_app = Str ''app''" by (simp add: config_app_def)
  have pre: "map_of (generator_options state_loaded) ''prefix'' = Some ''css:''"
    by (simp add: state_loaded_def initial_options_def)
  note t = package_generator_registers_tasks[OF config_app_generated]
  have a: "{''build'', ''watch'', ''serve'', ''default''} \<subseteq> fst ` set registry_app"
    using t[THEN conjunct1] by simp
  have c: "map_of registry_app ''css:build'' =
       Some (Parallel [Named ''css:build:480'', Named ''css:build:576'',
                       Named ''css:build:720'', Named ''css:build:1080''])"
    using t[THEN conjunct2, THEN conjunct2, THEN conjunct1] by simp
  have d: "\<forall>r\<in>set [''480'', ''576'', ''720'', ''1080''].
      ''css:build:'' @ r \<in> fst ` set registry_app
      \<and> fst ` set (externals env_example (Sass r)) \<subseteq> fst ` set registry_app"
    using t[THEN conjunct2, THEN conjunct2, THEN conjunct2] app pre by simp
  have e: "fst ` set (externals env_example (Sass r)) = {''sass:build:'' @ r}" for r
    by (simp add: env_example_def externals_example_def)
  have css: "{''css:build:480'', ''css:build:576'', ''css:build:720'', ''css:build:1080''}
      \<subseteq> fst ` set registry_app"
    using d by simp
  have sass: "{''sass:build:480'', ''sass:build:576'', ''sass:build:720'', ''sass:build:1080''}
      \<subseteq> fst ` set registry_app"
    using d unfolding e by simp
  show ?thesis using app pre a css sass c by (intro conjI)
qed

text \<open>
  C7 as stated fails: for a package whose type is not app the generator returns
  and the registry holds neither css:build:480 nor sass:build:480.
\<close>

theorem package_generator_library_counterexample:
  "\<not> isl (package_generator env_example config_library state_loaded)
   \<and> map_of (tasks (snd (projr (package_generator env_example config_library state_loaded))))
        ''css:build:480'' = None
   \<and> map_of (tasks (snd (projr (package_generator env_example config_library state_loaded))))
        ''sass:build:480'' = None
   \<and> map_of (tasks (snd (projr (package_generator env_example config_library state_loaded))))
        ''css:build'' =
       Some (Parallel [Named ''css:build:480'', Named ''css:build:576'',
                       Named ''css:build:720'', Named ''css:build:1080''])"
  unfolding config_library_generated by (simp add: main_tasks_def)

section \<open>Properties of running composite tasks\<close>

lemma serial_results_stop:
  assumes "r \<noteq> Succeeded"
  shows "serial_results (Some (started, r) # rs) = Some (started, r)"
  using assms by (cases r) simp_all

lemma serial_results_prefix:
  assumes "\<forall>x\<in>set before. \<exists>started. x = Some (started, Succeeded)"
    and "r \<noteq> Succeeded"
  shows "serial_results (before @ Some (started, r) # later) =
     Some (concat (map (\<lambda>x. fst (the x)) before) @ started, r)"
  using assms(1)
proof (induction before)
  case Nil
  then show ?case using assms(2) by (simp add: serial_results_stop)
next
  case (Cons x before)
  then obtain s where x: "x = Some (s, Succeeded)" by auto
  from Cons have "serial_results (before @ Some (started, r) # later) =
      Some (concat (map (\<lambda>x. fst (the x)) before) @ started, r)"
    by simp
  then show ?case by (simp add: x)
qed

section \<open>Claims about composite tasks\<close>

text \<open>
  C8. A task made by the serial combinator stops at the first step that does
  not succeed: when the steps before it succeed, the actions started are those
  of these steps and of the failing step, the outcome is that of the failing
  step, and no later step contributes anything, whatever it is.
\<close>

theorem serial_stops_at_first_failure:
  assumes "\<forall>t\<in>set before. \<exists>started. run n registry perform t = Some (started, Succeeded)"
    and "run n registry perform step = Some (started, r)"
    and "r \<noteq> Succeeded"
  shows "run (Suc n) registry perform (Serial (before @ step # later)) =
     Some (concat (map (\<lambda>t. fst (the (run n registry perform t))) before) @ started, r)"
proof -
  have "\<forall>x\<in>set (map (run n registry perform) before). \<exists>started. x = Some (started, Succeeded)"
    using assms(1) by simp
  from serial_results_prefix[OF this assms(3), of started "map (run n registry perform) later"]
  show ?thesis by (simp add: assms(2) comp_def)
qed

theorem serial_stops_at_first_failure_witness:
  "map_of registry_app ''default'' =
     Some (Serial [Named ''build'', Parallel [Named ''watch'', Named ''serve'']])
   \<and> run 9 registry_app perform_copy_fails
        (Serial [Named ''build'', Parallel [Named ''watch'', Named ''serve'']]) =
       Some ([External ''pug:build'', External ''sass:build:480'', External ''sass:build:576'',
              External ''sass:build:720'', External ''sass:build:1080'',
              Css_build \<lparr>resolution = ''480'', outFile = ''build/webos/css/sdk.480.css'',
                          mode = ''release''\<rparr>,
              Css_build \<lparr>resolution = ''576'', outFile = ''build/webos/css/sdk.576.css'',
                          mode = ''release''\<rparr>,
              Css_build \<lparr>resolution = ''720'', outFile = ''build/webos/css/sdk.720.css'',
                          mode = ''release''\<rparr>,
              Css_build \<lparr>resolution = ''1080'', outFile = ''build/webos/css/sdk.1080.css'',
                          mode = ''release''\<rparr>,
              External ''webpack:build'', Copy ''src/img'' ''build/webos/img'',
              Gettext_prepare, External ''gettext:build''],
             Failed ''EACCES'')
   \<and> run 3 registry_app perform_prepare_fails
        (Serial [Named ''gettext:prepare'', Named ''gettext:build'']) =
       Some ([Gettext_prepare], Failed ''EROFS'')"
proof -
  have d: "map_of registry_app ''default'' =
      Some (Serial [Named ''build'', Parallel [Named ''watch'', Named ''serve'']])"
    by (simp add: registry_app_def)
  have b: "run 8 registry_app perform_copy_fails (Named ''build'') =
      Some ([External ''pug:build'', External ''sass:build:480'', External ''sass:build:576'',
             External ''sass:build:720'', External ''sass:build:1080'',
             Css_build \<lparr>resolution = ''480'', outFile = ''build/webos/css/sdk.480.css'',
                         mode = ''release''\<rparr>,
             Css_build \<lparr>resolution = ''576'', outFile = ''build/webos/css/sdk.576.css'',
                         mode = ''release''\<rparr>,
             Css_build \<lparr>resolution = ''720'', outFile = ''build/webos/css/sdk.720.css'',
                         mode = ''release''\<rparr>,
             Css_build \<lparr>resolution = ''1080'', outFile = ''build/webos/css/sdk.1080.css'',
                         mode = ''release''\<rparr>,
             External ''webpack:build'', Copy ''src/img'' ''build/webos/img'',
             Gettext_prepare, External ''gettext:build''],
            Failed ''EACCES'')"
    by (simp add: eval_nat_numeral registry_app_def perform_copy_fails_def)
  have g: "run 2 registry_app perform_prepare_fails (Named ''gettext:prepare'') =
      Some ([Gettext_prepare], Failed ''EROFS'')"
    by (simp add: eval_nat_numeral registry_app_def perform_prepare_fails_def)
  have n: "\<forall>t\<in>set []. \<exists>started. run k registry_app p t = Some (started, Succeeded)"
    for k and p :: "action \<Rightarrow> string outcome"
    by simp
  have f: "Failed ''EACCES'' \<noteq> (Succeeded :: string outcome)"
    "Failed ''EROFS'' \<noteq> (Succeeded :: string outcome)"
    by simp_all
  note 1 = serial_stops_at_first_failure[OF n b f(1),
      where later = "[Parallel [Named ''watch'', Named ''serve'']]"]
  note 2 = serial_stops_at_first_failure[OF n g f(2), where later = "[Named ''gettext:build'']"]
  show ?thesis using d 1 2 by simp
qed

end
